theory Spec2Isabelle
  imports Complex_Main
begin

section \<open>The input buffer of MathParserModel\<close>

text \<open>
  \<^verbatim>\<open>char input[256]\<close> is modelled as a list of bytes, the whole array and not only the
  C string it holds: \<^verbatim>\<open>removeSpaces\<close> compacts the array in place and leaves stale
  bytes behind the new terminator. The C string held by an array is the bytes before its
  first NUL.
\<close>

abbreviation NUL :: char where
  "NUL \<equiv> CHR 0x00"

definition cstr :: "string \<Rightarrow> string" where
  "cstr a = takeWhile (\<lambda>c. c \<noteq> NUL) a"

text \<open>\<^verbatim>\<open>input[i]\<close> for an index inside the array; outside it the read is an overrun,
  which the callers record (see \<open>probe\<close> below), and the model carries on with NUL.\<close>

definition byte_at :: "string \<Rightarrow> nat \<Rightarrow> char" where
  "byte_at a i = (if i < length a then a ! i else NUL)"

datatype fault =
    BufferOverrun   \<comment> \<open>a read of \<^verbatim>\<open>input\<close> behind its 256 bytes\<close>
  | Diverges        \<comment> \<open>a loop that repeats without changing its state\<close>
  | EmptyStackRead  \<comment> \<open>\<^verbatim>\<open>supportStack.begin()\<close> dereferenced on an empty list\<close>
  | EmptyListWrite  \<comment> \<open>\<^verbatim>\<open>--lexemesList.end()\<close> written on an empty list\<close>
  | IteratorPastEnd \<comment> \<open>an iterator of \<^verbatim>\<open>readyStack\<close> dereferenced at or behind \<^verbatim>\<open>end()\<close>\<close>
  | ErasedIterator  \<comment> \<open>\<^verbatim>\<open>it++\<close> on a node of \<^verbatim>\<open>supportStack\<close> that \<^verbatim>\<open>pop_front\<close> has erased\<close>

text \<open>
  \<^verbatim>\<open>freeData(); strncpy(model_->input, str, 255);\<close> on a fresh model object: the first
  255 bytes are the C string \<open>str\<close>, cut at 255 and padded with NUL; byte 255 is never
  written and keeps what the uninitialised object held, the parameter \<open>m255\<close>.
\<close>

definition strncpy_input :: "char \<Rightarrow> string \<Rightarrow> string" where
  "strncpy_input m255 str =
     take 255 (cstr str) @ replicate (255 - length (cstr str)) NUL @ [m255]"

text \<open>
  \<^verbatim>\<open>for(i = 0, j = 0; input[i] != '\0'; i++) { if(input[i] == ' ') continue;
        input[j] = input[i]; j++; }  input[j] = '\0';\<close>
\<close>

function removeSpaces_loop :: "string \<Rightarrow> nat \<Rightarrow> nat \<Rightarrow> fault + string" where
  "removeSpaces_loop a i j =
     (if length a \<le> i then Inl BufferOverrun
      else if a ! i = NUL then Inr (a[j := NUL])
      else if a ! i = CHR '' '' then removeSpaces_loop a (i + 1) j
      else removeSpaces_loop (a[j := a ! i]) (i + 1) (j + 1))"
  by pat_completeness auto
termination
  by (relation "measure (\<lambda>(a, i, j). length a - i)") auto

declare removeSpaces_loop.simps [simp del]

definition removeSpaces :: "string \<Rightarrow> fault + string" where
  "removeSpaces a = removeSpaces_loop a 0 0"

section \<open>Error messages\<close>

text \<open>\<^verbatim>\<open>QString::number(n)\<close> for an \<^verbatim>\<open>int\<close> that is never negative here.\<close>

definition digit_char :: "nat \<Rightarrow> char" where
  "digit_char d = ''0123456789'' ! d"

function QString_number :: "nat \<Rightarrow> string" where
  "QString_number n =
     (if n < 10 then [digit_char n] else QString_number (n div 10) @ [digit_char (n mod 10)])"
  by pat_completeness auto
termination
  by (relation "measure id") auto

declare QString_number.simps [simp del]

definition msg_empty :: string where
  "msg_empty = ''Error: Empty expression''"

definition msg_parentheses :: string where
  "msg_parentheses = ''Error: Mismatched parentheses! Possibly a missing closing parenthesis''"

definition msg_negative_power :: "nat \<Rightarrow> string" where
  "msg_negative_power i =
     ''Error! Missing parentheses when raising to a negative power! Location: ''
       @ QString_number (i + 1) @ '' character''"

definition msg_missing_argument :: "nat \<Rightarrow> string" where
  "msg_missing_argument i =
     ''Error! Missing function argument! Location between: ''
       @ QString_number i @ '' and '' @ QString_number (i + 1)"

definition msg_order :: string where
  "msg_order =
     ''Error: The input contains incorrect symbols or is incorrectly composed! Position''"

definition msg_dot :: "nat \<Rightarrow> string" where
  "msg_dot i =
     ''Error! The expression contains a number with incorrect symbols after the dot! Location: ''
       @ QString_number (i + 1)"

definition msg_exponent :: "nat \<Rightarrow> string" where
  "msg_exponent i =
     ''Error! Invalid exponential form! Location: '' @ QString_number (i + 1) @ ''!''"

definition msg_incorrect :: string where
  "msg_incorrect = ''Error: Incorrect expression input!''"

definition msg_success :: string where
  "msg_success = ''Success!''"

definition msg_nan :: string where
  "msg_nan = ''Returned NaN, likely there was an invalid input (e.g., presence of real and imaginary parts)!''"

section \<open>The libraries\<close>

text \<open>
  The program reads numbers with \<^verbatim>\<open>sscanf\<close>, computes with the operators of
  \<^verbatim>\<open>double\<close> and the functions of \<^verbatim>\<open><cmath>\<close>, and decodes its buffer with
  \<^verbatim>\<open>QString(const char *)\<close>. None of them is code of the repository: they are
  parameters of the model, collected in one record. The type \<open>'d\<close> stands for
  \<^verbatim>\<open>double\<close>.
  \<^item> \<open>sscanf_le s\<close> is \<^verbatim>\<open>sscanf(s, "%le%n", &value, &len)\<close>: \<open>None\<close> when nothing is
    converted (both variables keep their values), else the value and the number of
    characters read;
  \<^item> \<open>sscanf_d s\<close> is \<^verbatim>\<open>sscanf(s, "%d%n", &exp, &len)\<close> in the same way;
  \<^item> \<open>of_int_d\<close> is the conversion of an \<^verbatim>\<open>int\<close> to \<^verbatim>\<open>double\<close>, also of the literal 0;
  \<^item> \<open>d_isnan r\<close> is the test \<^verbatim>\<open>result != result\<close>, and \<open>d_NAN\<close> the macro \<^verbatim>\<open>NAN\<close>;
  \<^item> \<open>QString_decode s\<close> is the sequence of 16-bit code units of the \<^verbatim>\<open>QString\<close> that Qt
    builds from a C string \<open>s\<close> with a byte above 127 in it (see \<open>QString_of\<close>).
\<close>

record 'd clib =
  sscanf_le :: "string \<Rightarrow> ('d \<times> nat) option"
  sscanf_d :: "string \<Rightarrow> (int \<times> nat) option"
  of_int_d :: "int \<Rightarrow> 'd"
  d_add :: "'d \<Rightarrow> 'd \<Rightarrow> 'd"
  d_sub :: "'d \<Rightarrow> 'd \<Rightarrow> 'd"
  d_mul :: "'d \<Rightarrow> 'd \<Rightarrow> 'd"
  d_div :: "'d \<Rightarrow> 'd \<Rightarrow> 'd"
  d_pow :: "'d \<Rightarrow> 'd \<Rightarrow> 'd"
  d_cos :: "'d \<Rightarrow> 'd"
  d_sin :: "'d \<Rightarrow> 'd"
  d_tan :: "'d \<Rightarrow> 'd"
  d_log :: "'d \<Rightarrow> 'd"
  d_sqrt :: "'d \<Rightarrow> 'd"
  d_fabs :: "'d \<Rightarrow> 'd"
  d_isnan :: "'d \<Rightarrow> bool"
  d_NAN :: 'd
  QString_decode :: "string \<Rightarrow> nat list"

text \<open>
  \<^verbatim>\<open>QString(input)\<close>, as the list of its code units; \<^verbatim>\<open>size()\<close> is the length of that
  list and \<^verbatim>\<open>at(i)\<close> its \<open>i\<close>-th element. A C string of 7-bit characters only is
  decoded to the characters of the same codes, one for each byte, by every codec that Qt
  uses for a \<^verbatim>\<open>const char *\<close> (UTF-8, Latin-1). For any other string the code units, and
  how many they are, depend on the codec: they are the parameter.
\<close>

definition QString_of :: "'d clib \<Rightarrow> string \<Rightarrow> nat list" where
  "QString_of L s =
     (if list_all (\<lambda>c. of_char c < (128 :: nat)) s then map of_char s else QString_decode L s)"

section \<open>Validation: parentheses\<close>

text \<open>
  \<^verbatim>\<open>checkCorrectParentheses\<close>. \<open>size\<close> is \<^verbatim>\<open>QString(input).size()\<close>, the number of code
  units of the decoded buffer, and \<open>buff\<close> the decoded buffer. The first loop looks in
  \<open>buff\<close> for a \<^verbatim>\<open>^\<close> directly followed by \<^verbatim>\<open>-\<close>. The second loop runs over the bytes
  \<^verbatim>\<open>input[0]\<close> to \<^verbatim>\<open>input[size - 1]\<close>: it stops at an empty pair of parentheses (reading
  \<^verbatim>\<open>input[i + 1]\<close> after a \<^verbatim>\<open>(\<close>) and otherwise counts. A read behind the array is a
  fault. The counter is a C \<^verbatim>\<open>int\<close>; the loop ends before it has made more steps than
  the array has bytes, so the counter never wraps.
\<close>

fun power_loop :: "nat list \<Rightarrow> nat \<Rightarrow> nat \<Rightarrow> nat option" where
  "power_loop buff i 0 = None"
| "power_loop buff i (Suc k) =
     (if i + 1 < length buff \<and> buff ! i = of_char (CHR ''^'') \<and> buff ! (i + 1) = of_char (CHR ''-'')
      then Some i else power_loop buff (i + 1) k)"

fun count_loop :: "string \<Rightarrow> nat \<Rightarrow> nat \<Rightarrow> int \<Rightarrow> fault + (nat + int)" where
  "count_loop a i 0 parentheses_counter = Inr (Inr parentheses_counter)"
| "count_loop a i (Suc k) parentheses_counter =
     (if length a \<le> i then Inl BufferOverrun
      else if a ! i = CHR ''('' then
        (if length a \<le> i + 1 then Inl BufferOverrun
         else if a ! (i + 1) = CHR '')'' then Inr (Inl i)
         else count_loop a (i + 1) k (parentheses_counter + 1))
      else if a ! i = CHR '')'' then count_loop a (i + 1) k (parentheses_counter - 1)
      else count_loop a (i + 1) k parentheses_counter)"

text \<open>The result is the returned flag and the error string as the call leaves it.\<close>

definition checkCorrectParentheses :: "'d clib \<Rightarrow> string \<Rightarrow> string \<Rightarrow> fault + bool \<times> string" where
  "checkCorrectParentheses L a err =
     (let buff = QString_of L (cstr a); size = length buff in
      case power_loop buff 0 size of
        Some i \<Rightarrow> Inr (False, msg_negative_power i)
      | None \<Rightarrow>
          (case count_loop a 0 size 0 of
             Inl f \<Rightarrow> Inl f
           | Inr (Inl i) \<Rightarrow> Inr (False, msg_missing_argument i)
           | Inr (Inr parentheses_counter) \<Rightarrow> Inr (parentheses_counter = 0, err)))"

section \<open>Validation: order of operators and operands\<close>

text \<open>
  The scanning functions share \<^verbatim>\<open>currentIndex\<close> and the caller's error string
  (\<^verbatim>\<open>*errorString\<close>). \<open>overrun\<close> records a read at \<^verbatim>\<open>input[currentIndex]\<close> behind the
  array: \<^verbatim>\<open>isFunction\<close> steps over the byte that follows a function name even when that
  byte is the terminator. Every other read follows a byte that is not NUL, in an array
  that \<^verbatim>\<open>removeSpaces\<close> has terminated.
\<close>

record vstate =
  currentIndex :: nat
  errorString :: string
  overrun :: bool

definition probe :: "string \<Rightarrow> vstate \<Rightarrow> vstate" where
  "probe a st = st\<lparr>overrun := overrun st \<or> length a \<le> currentIndex st\<rparr>"

definition cur :: "string \<Rightarrow> vstate \<Rightarrow> char" where
  "cur a st = byte_at a (currentIndex st)"

definition advance :: "nat \<Rightarrow> vstate \<Rightarrow> vstate" where
  "advance k st = st\<lparr>currentIndex := currentIndex st + k\<rparr>"

definition is_digit :: "char \<Rightarrow> bool" where
  "is_digit c = (48 \<le> (of_char c :: nat) \<and> (of_char c :: nat) \<le> 57)"

definition isSign :: "string \<Rightarrow> vstate \<Rightarrow> bool \<times> vstate" where
  "isSign a st =
     (let st = probe a st in
      if cur a st = CHR ''-'' \<or> cur a st = CHR ''+'' then (True, advance 1 st)
      else (False, st))"

definition isOperator :: "string \<Rightarrow> vstate \<Rightarrow> bool \<times> vstate" where
  "isOperator a st =
     (case isSign a st of
        (True, st) \<Rightarrow> (True, st)
      | (False, st) \<Rightarrow>
          if cur a st = CHR ''*'' \<or> cur a st = CHR ''/'' \<or> cur a st = CHR ''^''
          then (True, advance 1 st) else (False, st))"

text \<open>\<^verbatim>\<open>while (input[currentIndex] >= '0' && input[currentIndex] <= '9') currentIndex++;\<close>\<close>

function skip_digits :: "string \<Rightarrow> nat \<Rightarrow> nat" where
  "skip_digits a i = (if is_digit (byte_at a i) then skip_digits a (i + 1) else i)"
  by pat_completeness auto
termination
  by (relation "measure (\<lambda>(a, i). length a - i)")
     (auto simp: byte_at_def is_digit_def split: if_splits)

declare skip_digits.simps [simp del]

definition checkExponentionalForm :: "string \<Rightarrow> vstate \<Rightarrow> bool \<times> vstate" where
  "checkExponentionalForm a st =
     (let st = probe a st in
      if cur a st = CHR ''e'' \<or> cur a st = CHR ''E'' then
        (let st = advance 1 st;
             st = (if cur a st = CHR ''-'' \<or> cur a st = CHR ''+'' then advance 1 st else st)
         in if \<not> is_digit (cur a st)
            then (False, st\<lparr>errorString := msg_exponent (currentIndex st)\<rparr>)
            else (True, st\<lparr>currentIndex := skip_digits a (currentIndex st)\<rparr>))
      else (True, st))"

text \<open>The loop of \<^verbatim>\<open>isNumber\<close>: \<open>Inl i\<close> is the index of a dot that is refused,
  \<open>Inr i\<close> the index behind the digits and dots.\<close>

function number_loop :: "string \<Rightarrow> nat \<Rightarrow> bool \<Rightarrow> nat + nat" where
  "number_loop a i was_dot =
     (if is_digit (byte_at a i) \<or> byte_at a i = CHR ''.'' then
        (if byte_at a i = CHR ''.'' \<and> (\<not> is_digit (byte_at a (i + 1)) \<or> was_dot) then Inl i
         else number_loop a (i + 1) (was_dot \<or> byte_at a i = CHR ''.''))
      else Inr i)"
  by pat_completeness auto
termination
  by (relation "measure (\<lambda>(a, i, d). length a - i)")
     (auto simp: byte_at_def is_digit_def split: if_splits)

declare number_loop.simps [simp del]

definition isNumber :: "string \<Rightarrow> vstate \<Rightarrow> bool \<times> vstate" where
  "isNumber a st =
     (let st = probe a st in
      if is_digit (cur a st) then
        (case number_loop a (currentIndex st) False of
           Inl i \<Rightarrow> (False, st\<lparr>currentIndex := i, errorString := msg_dot i\<rparr>)
         | Inr i \<Rightarrow> checkExponentionalForm a (st\<lparr>currentIndex := i\<rparr>))
      else (False, st))"

text \<open>\<^verbatim>\<open>!strncmp(&input[currentIndex], name, n)\<close> with \<open>n\<close> the length of \<open>name\<close>.\<close>

definition strncmp0 :: "string \<Rightarrow> nat \<Rightarrow> string \<Rightarrow> bool" where
  "strncmp0 a i name = (take (length name) (drop i a) = name)"

text \<open>The length of the function name at \<^verbatim>\<open>currentIndex\<close>, in the order \<^verbatim>\<open>isFunction\<close>
  tries the names.\<close>

definition function_name_length :: "string \<Rightarrow> nat \<Rightarrow> nat option" where
  "function_name_length a i =
     (if strncmp0 a i ''cos'' \<or> strncmp0 a i ''sin'' \<or> strncmp0 a i ''tan''
         \<or> strncmp0 a i ''log'' \<or> strncmp0 a i ''abs'' then Some 3
      else if strncmp0 a i ''sqrt'' then Some 4
      else if strncmp0 a i ''sqr'' then Some 3
      else if strncmp0 a i ''ln'' then Some 2
      else None)"

text \<open>The three flags and the counter of \<^verbatim>\<open>checkOperatorAndOperandsOrder\<close>; the flags
  only ever hold 0 or 1.\<close>

record flags =
  allowSign :: bool
  allowOperand :: bool
  allowOperator :: bool
  p_counter :: int

lemma strncmp0_length:
  assumes "strncmp0 a i name" and "name \<noteq> []"
  shows "i + length name \<le> length a"
proof -
  from assms(1) have "length (take (length name) (drop i a)) = length name"
    by (simp add: strncmp0_def)
  then have "min (length name) (length a - i) = length name"
    by simp
  moreover from assms(2) have "0 < length name"
    by simp
  moreover have "0 < n \<Longrightarrow> min n (m - i) = n \<Longrightarrow> i + n \<le> m" for n m i :: nat
    by arith
  ultimately show ?thesis
    by blast
qed

lemma function_name_length_bound:
  "function_name_length a i = Some k \<Longrightarrow> i + k \<le> length a \<and> 2 \<le> k"
  unfolding function_name_length_def
  by (auto split: if_splits dest: strncmp0_length)

subsection \<open>The scanners never move \<^verbatim>\<open>currentIndex\<close> backwards\<close>

lemma isSign_index: "isSign a st = (b, st') \<Longrightarrow> currentIndex st \<le> currentIndex st'"
  by (auto simp: isSign_def probe_def advance_def Let_def split: if_splits)

lemma isSign_True: "isSign a st = (True, st') \<Longrightarrow> currentIndex st < currentIndex st'"
  by (auto simp: isSign_def probe_def advance_def Let_def split: if_splits)

lemma isOperator_index: "isOperator a st = (b, st') \<Longrightarrow> currentIndex st \<le> currentIndex st'"
  unfolding isOperator_def 
  by (cases "isSign a st") (auto simp: advance_def split: bool.splits if_splits dest: isSign_index)

lemma skip_digits_le: "i \<le> skip_digits a i"
proof (induction a i rule: skip_digits.induct)
  case (1 a i)
  show ?case
  proof (cases "is_digit (byte_at a i)")
    case True
    with 1 have "i + 1 \<le> skip_digits a (i + 1)" by simp
    moreover from True have "skip_digits a i = skip_digits a (i + 1)" by (subst skip_digits.simps) simp
    ultimately show ?thesis by simp
  next
    case False
    then show ?thesis by (subst skip_digits.simps) simp
  qed
qed

lemma number_loop_index:
  "case number_loop a i d of Inl k \<Rightarrow> i \<le> k | Inr k \<Rightarrow> i \<le> k"
proof (induction a i d rule: number_loop.induct)
  case (1 a i d)
  show ?case
  proof (cases "(is_digit (byte_at a i) \<or> byte_at a i = CHR ''.'') \<and>
                \<not> (byte_at a i = CHR ''.'' \<and> (\<not> is_digit (byte_at a (i + 1)) \<or> d))")
    case True
    then have eq: "number_loop a i d = number_loop a (i + 1) (d \<or> byte_at a i = CHR ''.'')"
      by (subst number_loop.simps) auto
    from True have "case number_loop a (i + 1) (d \<or> byte_at a i = CHR ''.'') of
                      Inl k \<Rightarrow> i + 1 \<le> k | Inr k \<Rightarrow> i + 1 \<le> k"
      by (intro 1) auto
    then show ?thesis
      unfolding eq by (auto split: sum.splits)
  next
    case False
    then show ?thesis
      by (subst number_loop.simps) auto
  qed
qed

lemma checkExponentionalForm_index:
  "checkExponentionalForm a st = (b, st') \<Longrightarrow> currentIndex st \<le> currentIndex st'"
  using skip_digits_le [where i = "Suc (currentIndex st)" and a = a] skip_digits_le [where i = "Suc (Suc (currentIndex st))" and a = a]
        skip_digits_le [where i = "currentIndex st" and a = a]
  by (auto simp: checkExponentionalForm_def probe_def advance_def Let_def split: if_splits)

lemma isNumber_index: "isNumber a st = (b, st') \<Longrightarrow> currentIndex st \<le> currentIndex st'"
  using number_loop_index [where a = a and i = "currentIndex st" and d = False]
  by (auto simp: isNumber_def probe_def Let_def split: if_splits sum.splits
           dest!: checkExponentionalForm_index)

subsection \<open>\<^verbatim>\<open>checkOperatorAndOperandsOrder\<close> and \<^verbatim>\<open>isFunction\<close>\<close>

text \<open>
  The conditions of the \<^verbatim>\<open>else if\<close> chain are evaluated left to right and a scanner
  is only called when its flag is set: \<^verbatim>\<open>allowSign && isSign()\<close>,
  \<^verbatim>\<open>allowOperand && (isNumber() || isFunction())\<close>, \<^verbatim>\<open>allowOperator && isOperator()\<close>.
  A scanner that fails keeps what it did to \<^verbatim>\<open>currentIndex\<close> and to the error string,
  and the next condition starts from there.
\<close>

definition try_sign :: "string \<Rightarrow> flags \<Rightarrow> vstate \<Rightarrow> bool \<times> vstate" where
  "try_sign a f st = (if allowSign f then isSign a st else (False, st))"

definition try_operator :: "string \<Rightarrow> flags \<Rightarrow> vstate \<Rightarrow> bool \<times> vstate" where
  "try_operator a f st = (if allowOperator f then isOperator a st else (False, st))"

definition paren_flags :: "bool \<Rightarrow> char \<Rightarrow> flags \<Rightarrow> flags" where
  "paren_flags inside c f =
     (let f = (if c = CHR ''('' then f\<lparr>allowSign := True\<rparr> else f)
      in if inside
         then f\<lparr>p_counter := (if c = CHR ''('' then p_counter f + 1 else p_counter f - 1)\<rparr>
         else f)"

lemma try_sign_index: "try_sign a f st = (b, st') \<Longrightarrow> currentIndex st \<le> currentIndex st'"
  by (auto simp: try_sign_def split: if_splits dest: isSign_index)

lemma try_sign_True: "try_sign a f st = (True, st') \<Longrightarrow> currentIndex st < currentIndex st'"
  by (auto simp: try_sign_def isSign_def advance_def probe_def Let_def split: if_splits)

text \<open>
  \<open>order_loop\<close> is the \<^verbatim>\<open>while\<close> loop of \<^verbatim>\<open>checkOperatorAndOperandsOrder\<close>, one
  call per iteration; \<open>st0\<close> is the state at the head of the iteration. The loop goes
  on after an operand or an operator under the test
  \<open>currentIndex st0 < currentIndex st\<close>, which the source does not make: it is what the
  termination proof uses, and \<open>order_loop_progress\<close> below shows that it never fails.
  \<^verbatim>\<open>isFunction\<close> tests \<^verbatim>\<open>input[currentIndex++] == '('\<close>: the index moves over the byte
  whatever it is.
\<close>

function order_loop :: "string \<Rightarrow> bool \<Rightarrow> flags \<Rightarrow> vstate \<Rightarrow> bool \<times> vstate"
  and isFunction :: "string \<Rightarrow> vstate \<Rightarrow> bool \<times> vstate" where
  "order_loop a inside f st0 =
     (let st = probe a st0; c = cur a st in
      if c = NUL then (\<not> allowOperand f, st)
      else if c = CHR ''('' \<or> c = CHR '')'' then
        (if inside \<and> p_counter (paren_flags inside c f) = 0
         then (\<not> allowOperand f, st)
         else order_loop a inside (paren_flags inside c f) (advance 1 st))
      else
        (case try_sign a f st of
           (True, st1) \<Rightarrow>
             order_loop a inside (f\<lparr>allowSign := False, allowOperand := True\<rparr>) st1
         | (False, st1) \<Rightarrow>
             (case (if allowOperand f
                    then (case isNumber a st1 of
                            (True, st2) \<Rightarrow> (True, st2)
                          | (False, st2) \<Rightarrow> isFunction a st2)
                    else (False, st1)) of
                (True, st3) \<Rightarrow>
                  if currentIndex st0 < currentIndex st3
                  then order_loop a inside
                         (f\<lparr>allowOperand := False, allowOperator := True\<rparr>) st3
                  else (False, st3)
              | (False, st3) \<Rightarrow>
                  (case try_operator a f st3 of
                     (True, st4) \<Rightarrow>
                       if currentIndex st0 < currentIndex st4
                       then order_loop a inside
                              (f\<lparr>allowOperator := False, allowOperand := True\<rparr>) st4
                       else (False, st4)
                   | (False, st4) \<Rightarrow>
                       (False, if errorString st4 = [] then st4\<lparr>errorString := msg_order\<rparr> else st4)))))"
| "isFunction a st0 =
     (let st = probe a st0 in
      case function_name_length a (currentIndex st) of
        None \<Rightarrow> (False, st)
      | Some k \<Rightarrow>
          (if cur a (advance k st) = CHR ''('' then
             (case order_loop a True
                     \<lparr>allowSign = True, allowOperand = True, allowOperator = False, p_counter = 1\<rparr>
                     (advance (k + 1) st) of
                (True, st1) \<Rightarrow> if cur a st1 = CHR '')'' then (True, advance 1 st1) else (False, st1)
              | (False, st1) \<Rightarrow> (False, st1))
           else (False, advance (k + 1) st)))"
  by pat_completeness auto
termination
  apply (relation "measure (\<lambda>v. case v of
            Inl (a, i, f, st) \<Rightarrow> 2 * (length a + 2 - currentIndex st) + 1
          | Inr (a, st) \<Rightarrow> 2 * (length a + 2 - currentIndex st))")
       apply simp
      apply (auto simp: probe_def advance_def cur_def byte_at_def split: if_splits)[1]
     apply (auto simp: probe_def advance_def cur_def byte_at_def split: if_splits dest!: try_sign_True[OF sym])[1]
    apply (auto simp: probe_def advance_def cur_def byte_at_def split: if_splits dest!: try_sign_index[OF sym] isNumber_index[OF sym])[1]
   apply (auto simp: probe_def advance_def cur_def byte_at_def split: if_splits)[1]
  apply (auto simp: probe_def advance_def cur_def byte_at_def split: if_splits)[1]
  apply (auto simp: probe_def advance_def cur_def byte_at_def split: if_splits dest!: function_name_length_bound)
  done

declare order_loop.simps [simp del] isFunction.simps [simp del]

definition checkOperatorAndOperandsOrder :: "string \<Rightarrow> bool \<Rightarrow> vstate \<Rightarrow> bool \<times> vstate" where
  "checkOperatorAndOperandsOrder a isCheckingInsideFunction st =
     order_loop a isCheckingInsideFunction
       \<lparr>allowSign = True, allowOperand = True, allowOperator = False, p_counter = 1\<rparr> st"

text \<open>
  \<^verbatim>\<open>checkCorrectInput\<close>, on the array \<open>a\<close> that \<^verbatim>\<open>setInput\<close> has filled and with the
  caller's error string \<open>err\<close>. The result is the flag, the array after
  \<^verbatim>\<open>removeSpaces\<close> and the error string; a read behind the array makes the whole call
  a fault.
\<close>

definition checkCorrectInput :: "'d clib \<Rightarrow> string \<Rightarrow> string \<Rightarrow> fault + (bool \<times> string \<times> string)" where
  "checkCorrectInput L a err =
     (case removeSpaces a of
        Inl f \<Rightarrow> Inl f
      | Inr a \<Rightarrow>
          if byte_at a 0 = NUL then Inr (False, a, msg_empty)
          else
            (case checkCorrectParentheses L a err of
               Inl f \<Rightarrow> Inl f
             | Inr (False, err) \<Rightarrow> Inr (False, a, if err = [] then msg_parentheses else err)
             | Inr (True, err) \<Rightarrow>
                 (case checkOperatorAndOperandsOrder a False
                         \<lparr>currentIndex = 0, errorString = err, overrun = False\<rparr> of
                    (ok, st) \<Rightarrow>
                      if overrun st then Inl BufferOverrun
                      else Inr (ok, a, errorString st))))"

text \<open>\<^verbatim>\<open>MathParserController::setInput\<close>; \<open>str\<close> is never null here.\<close>

definition setInput :: "'d clib \<Rightarrow> char \<Rightarrow> string \<Rightarrow> string \<Rightarrow> fault + (bool \<times> string \<times> string)" where
  "setInput L m255 str err = checkCorrectInput L (strncpy_input m255 str) err"

section \<open>Lexemes\<close>

text \<open>
  \<^verbatim>\<open>enum lexeme_type { number = 1, x, open_p, close_p, plus, minus, mult, division,
  mod_t, pow_t, cos_t, sin_t, tan_t, sqrt_t, ln_t, log_t, abs_t, sqr_t }\<close>. The
  enumerators without a \<^verbatim>\<open>_t\<close> or \<^verbatim>\<open>_p\<close> suffix get one here (\<open>number_t\<close>, \<open>x_t\<close>,
  \<open>plus_t\<close>, \<open>minus_t\<close>, \<open>mult_t\<close>, \<open>division_t\<close>): most of them are names of HOL.
  \<open>type_code\<close> is the integer value of an enumerator, which the source compares
  (\<^verbatim>\<open>it->type >= plus\<close>, \<^verbatim>\<open>prev_it->type < 11\<close>).
\<close>

datatype lexeme_type =
    number_t | x_t | open_p | close_p | plus_t | minus_t | mult_t | division_t | mod_t | pow_t
  | cos_t | sin_t | tan_t | sqrt_t | ln_t | log_t | abs_t | sqr_t

fun type_code :: "lexeme_type \<Rightarrow> nat" where
  "type_code number_t = 1"
| "type_code x_t = 2"
| "type_code open_p = 3"
| "type_code close_p = 4"
| "type_code plus_t = 5"
| "type_code minus_t = 6"
| "type_code mult_t = 7"
| "type_code division_t = 8"
| "type_code mod_t = 9"
| "type_code pow_t = 10"
| "type_code cos_t = 11"
| "type_code sin_t = 12"
| "type_code tan_t = 13"
| "type_code sqrt_t = 14"
| "type_code ln_t = 15"
| "type_code log_t = 16"
| "type_code abs_t = 17"
| "type_code sqr_t = 18"

text \<open>\<^verbatim>\<open>struct lexeme { double value; int priority; lexeme_type type; }\<close>; the type
  \<open>'d\<close> stands for \<^verbatim>\<open>double\<close>.\<close>

record 'd lexeme =
  val :: 'd
  priority :: int
  ltype :: lexeme_type

definition mk_lexeme :: "'d \<Rightarrow> int \<Rightarrow> lexeme_type \<Rightarrow> 'd lexeme" where
  "mk_lexeme v p t = \<lparr>val = v, priority = p, ltype = t\<rparr>"

section \<open>Tokenizer\<close>

text \<open>The state of \<^verbatim>\<open>parseStringIntoLexemes\<close>: \<^verbatim>\<open>currentIndex\<close>, its two local flags
  and \<^verbatim>\<open>lexemesList\<close>.\<close>

record 'd lstate =
  lindex :: nat
  unarySignFlag :: bool
  firstSignFlag :: bool
  lexemesList :: "'d lexeme list"

text \<open>The C string that starts at \<^verbatim>\<open>&input[i]\<close>.\<close>

definition cstr_from :: "string \<Rightarrow> nat \<Rightarrow> string" where
  "cstr_from a i = cstr (drop i a)"

text \<open>
  \<^verbatim>\<open>addNumberToList\<close>. When the first \<^verbatim>\<open>sscanf\<close> leaves \<^verbatim>\<open>len\<close> at 0 the function skips
  one byte, reads an \<^verbatim>\<open>int\<close> and stores it in the last lexeme of the list; on an empty
  list that write goes through \<^verbatim>\<open>--lexemesList.end()\<close>, which is no element.
\<close>

definition addNumberToList :: "'d clib \<Rightarrow> string \<Rightarrow> 'd lstate \<Rightarrow> fault + 'd lstate" where
  "addNumberToList L a st =
     (let (value, len) = (case sscanf_le L (cstr_from a (lindex st)) of
                            None \<Rightarrow> (of_int_d L 0, 0)
                          | Some (v, n) \<Rightarrow> (v, n))
      in if len = 0 then
           (let i = lindex st + 1;
                (exp, len) = (case sscanf_d L (cstr_from a i) of
                                None \<Rightarrow> (0, 0)
                              | Some (e, n) \<Rightarrow> (e, n))
            in if lexemesList st = [] then Inl EmptyListWrite
               else Inr (st\<lparr>lindex := i + len,
                             lexemesList := butlast (lexemesList st)
                                @ [(last (lexemesList st))\<lparr>val := of_int_d L exp\<rparr>]\<rparr>))
         else Inr (st\<lparr>lindex := lindex st + len,
                       lexemesList := lexemesList st @ [mk_lexeme value 0 number_t]\<rparr>))"

definition addOperatorToList :: "'d clib \<Rightarrow> string \<Rightarrow> 'd lstate \<Rightarrow> 'd lstate" where
  "addOperatorToList L a st =
     (let c = byte_at a (lindex st);
          st = (if c = CHR ''+'' \<or> c = CHR ''-'' then
                  (let st = (if unarySignFlag st \<or> firstSignFlag st
                             then st\<lparr>unarySignFlag := False, firstSignFlag := False,
                                     lexemesList := lexemesList st
                                        @ [mk_lexeme (of_int_d L 0) 0 number_t]\<rparr>
                             else st)
                   in if c = CHR ''+''
                      then st\<lparr>lexemesList := lexemesList st @ [mk_lexeme (of_int_d L 0) 1 plus_t]\<rparr>
                      else st\<lparr>lexemesList := lexemesList st @ [mk_lexeme (of_int_d L 0) 1 minus_t]\<rparr>)
                else if c = CHR ''*''
                then st\<lparr>lexemesList := lexemesList st @ [mk_lexeme (of_int_d L 0) 2 mult_t]\<rparr>
                else if c = CHR ''/''
                then st\<lparr>lexemesList := lexemesList st @ [mk_lexeme (of_int_d L 0) 2 division_t]\<rparr>
                else if c = CHR ''^''
                then st\<lparr>lexemesList := lexemesList st @ [mk_lexeme (of_int_d L 0) 3 pow_t]\<rparr>
                else st)
      in st\<lparr>lindex := lindex st + 1\<rparr>)"

text \<open>The function lexeme at \<^verbatim>\<open>currentIndex\<close> and the length of its name, in the order
  \<^verbatim>\<open>addFunctionToList\<close> tries the names.\<close>

definition function_at :: "string \<Rightarrow> nat \<Rightarrow> (lexeme_type \<times> nat) option" where
  "function_at a i =
     (if strncmp0 a i ''cos'' then Some (cos_t, 3)
      else if strncmp0 a i ''sin'' then Some (sin_t, 3)
      else if strncmp0 a i ''tan'' then Some (tan_t, 3)
      else if strncmp0 a i ''log'' then Some (log_t, 3)
      else if strncmp0 a i ''abs'' then Some (abs_t, 3)
      else if strncmp0 a i ''sqrt'' then Some (sqrt_t, 4)
      else if strncmp0 a i ''sqr'' then Some (sqr_t, 3)
      else if strncmp0 a i ''ln'' then Some (ln_t, 2)
      else None)"

definition addFunctionToList :: "'d clib \<Rightarrow> string \<Rightarrow> 'd lstate \<Rightarrow> 'd lstate" where
  "addFunctionToList L a st =
     (case function_at a (lindex st) of
        Some (t, n) \<Rightarrow> st\<lparr>lindex := lindex st + n,
                           lexemesList := lexemesList st @ [mk_lexeme (of_int_d L 0) 4 t]\<rparr>
      | None \<Rightarrow> st)"

definition addParenthesesToList :: "'d clib \<Rightarrow> string \<Rightarrow> 'd lstate \<Rightarrow> 'd lstate" where
  "addParenthesesToList L a st =
     (let st = (if byte_at a (lindex st) = CHR ''(''
                then (let st = st\<lparr>lexemesList := lexemesList st
                                   @ [mk_lexeme (of_int_d L 0) 0 open_p]\<rparr>
                      in if byte_at a (lindex st + 1) = CHR ''+'' \<or> byte_at a (lindex st + 1) = CHR ''-''
                         then st\<lparr>unarySignFlag := True\<rparr> else st)
                else st\<lparr>lexemesList := lexemesList st @ [mk_lexeme (of_int_d L 0) 0 close_p]\<rparr>)
      in st\<lparr>lindex := lindex st + 1\<rparr>)"

text \<open>
  One iteration of the loop of \<^verbatim>\<open>parseStringIntoLexemes\<close>. The \<^verbatim>\<open>if\<close> chain has no final
  \<^verbatim>\<open>else\<close>, and \<^verbatim>\<open>addFunctionToList\<close> does nothing when no name matches: in both cases the
  iteration changes nothing and the loop repeats it for ever.
\<close>

definition tokenize_step :: "'d clib \<Rightarrow> string \<Rightarrow> 'd lstate \<Rightarrow> fault + 'd lstate" where
  "tokenize_step L a st =
     (let c = byte_at a (lindex st) in
      if is_digit c \<or> c = CHR ''x'' \<or> c = CHR ''e'' \<or> c = CHR ''E''
      then addNumberToList L a st
      else if c = CHR ''+'' \<or> c = CHR ''-'' \<or> c = CHR ''*'' \<or> c = CHR ''/'' \<or> c = CHR ''^''
      then Inr (addOperatorToList L a st)
      else if c = CHR ''a'' \<or> c = CHR ''s'' \<or> c = CHR ''l'' \<or> c = CHR ''t'' \<or> c = CHR ''c''
              \<or> c = CHR ''m''
      then (if function_at a (lindex st) = None then Inl Diverges
            else Inr (addFunctionToList L a st))
      else if c = CHR ''('' \<or> c = CHR '')''
      then Inr (addParenthesesToList L a st)
      else Inl Diverges)"

lemma function_at_length: "function_at a i = Some (t, n) \<Longrightarrow> 0 < n"
  by (auto simp: function_at_def split: if_splits)

lemma tokenize_step_progress:
  assumes "tokenize_step L a st = Inr st'"
  shows "lindex st < lindex st'"
proof -
  have number: "addNumberToList L a st = Inr st' \<Longrightarrow> lindex st < lindex st'"
    by (auto simp: addNumberToList_def Let_def split: option.splits prod.splits if_splits)
  have operator: "lindex (addOperatorToList L a st) = lindex st + 1"
    by (simp add: addOperatorToList_def Let_def)
  have parenthesis: "lindex (addParenthesesToList L a st) = lindex st + 1"
    by (simp add: addParenthesesToList_def Let_def)
  have func: "function_at a (lindex st) \<noteq> None \<Longrightarrow>
                lindex st < lindex (addFunctionToList L a st)"
    by (auto simp: addFunctionToList_def dest: function_at_length)
  from assms show ?thesis
    unfolding tokenize_step_def Let_def
    using number operator parenthesis func
    by (auto split: if_splits)
qed

text \<open>\<^verbatim>\<open>while (input[currentIndex]) { ... }\<close>; an index behind the array can only come
  from a \<^verbatim>\<open>sscanf\<close> that reports more characters than the string has.\<close>

function tokenize_loop :: "'d clib \<Rightarrow> string \<Rightarrow> 'd lstate \<Rightarrow> fault + 'd lstate" where
  "tokenize_loop L a st =
     (if length a \<le> lindex st then Inl BufferOverrun
      else if byte_at a (lindex st) = NUL then Inr st
      else (case tokenize_step L a st of
              Inl f \<Rightarrow> Inl f
            | Inr st' \<Rightarrow> tokenize_loop L a st'))"
  by pat_completeness auto
termination
  by (relation "measure (\<lambda>(L, a, st). length a - lindex st)")
     (auto dest: tokenize_step_progress)

declare tokenize_loop.simps [simp del]

definition parseStringIntoLexemes :: "'d clib \<Rightarrow> string \<Rightarrow> fault + 'd lexeme list" where
  "parseStringIntoLexemes L a =
     (case tokenize_loop L a
             \<lparr>lindex = 0, unarySignFlag = False,
              firstSignFlag = (byte_at a 0 = CHR ''-'' \<or> byte_at a 0 = CHR ''+''),
              lexemesList = []\<rparr> of
        Inl f \<Rightarrow> Inl f
      | Inr st \<Rightarrow> Inr (lexemesList st))"

section \<open>Conversion to reverse Polish notation\<close>

text \<open>
  \<^verbatim>\<open>readyStack\<close> and \<^verbatim>\<open>supportStack\<close> are lists whose head is the front of the
  \<^verbatim>\<open>std::list\<close>. \<^verbatim>\<open>moveFromSupportToReady\<close> is
  \<^verbatim>\<open>readyStack.push_front(*supportStack.begin()); supportStack.pop_front();\<close>.

  \<^verbatim>\<open>handleSupportStack\<close>:
  \<^verbatim>\<open>if (supportStack.empty()) supportStack.push_front(lex);
  else { for (auto it = supportStack.begin();
              it != supportStack.end() && lex.priority <= it->priority; it++)
           moveFromSupportToReady();
         supportStack.push_front(lex); }\<close>
  The iterator starts at the front. When the condition holds there, the body erases
  the front, which is the node the iterator stands on, and \<^verbatim>\<open>it++\<close> then steps from the
  erased node: the behaviour is undefined from there, a fault of the model. So the
  function returns normally only when the stack is empty or the priority of its front
  is below that of \<open>lexm\<close>, and then it has only pushed \<open>lexm\<close>.
\<close>

fun handleSupportStack ::
  "'d lexeme \<Rightarrow> 'd lexeme list \<times> 'd lexeme list \<Rightarrow> fault + 'd lexeme list \<times> 'd lexeme list" where
  "handleSupportStack lexm (readyStack, []) = Inr (readyStack, [lexm])"
| "handleSupportStack lexm (readyStack, front # supportStack) =
     (if priority lexm \<le> priority front then Inl ErasedIterator
      else Inr (readyStack, lexm # front # supportStack))"

text \<open>\<^verbatim>\<open>while (supportStack.begin()->type != open_p) moveFromSupportToReady();
  supportStack.pop_front();\<close> Here every test takes \<^verbatim>\<open>begin()\<close> anew.\<close>

fun handleCloseParentheses ::
  "'d lexeme list \<times> 'd lexeme list \<Rightarrow> fault + 'd lexeme list \<times> 'd lexeme list" where
  "handleCloseParentheses (readyStack, []) = Inl EmptyStackRead"
| "handleCloseParentheses (readyStack, front # supportStack) =
     (if ltype front \<noteq> open_p then handleCloseParentheses (front # readyStack, supportStack)
      else Inr (readyStack, supportStack))"

fun rpn_loop ::
  "'d lexeme list \<Rightarrow> 'd lexeme list \<times> 'd lexeme list \<Rightarrow> fault + 'd lexeme list \<times> 'd lexeme list" where
  "rpn_loop [] stacks = Inr stacks"
| "rpn_loop (it # lexemes) (readyStack, supportStack) =
     (if ltype it = number_t \<or> ltype it = x_t
      then rpn_loop lexemes (it # readyStack, supportStack)
      else if type_code plus_t \<le> type_code (ltype it)
      then (case handleSupportStack it (readyStack, supportStack) of
              Inl f \<Rightarrow> Inl f
            | Inr stacks \<Rightarrow> rpn_loop lexemes stacks)
      else if ltype it = open_p
      then rpn_loop lexemes (readyStack, it # supportStack)
      else if ltype it = close_p
      then (case handleCloseParentheses (readyStack, supportStack) of
              Inl f \<Rightarrow> Inl f
            | Inr stacks \<Rightarrow> rpn_loop lexemes stacks)
      else rpn_loop lexemes (readyStack, supportStack))"

text \<open>
  After the lexemes,
  \<^verbatim>\<open>for (auto it = supportStack.begin(); it != supportStack.end(); it++)
    moveFromSupportToReady();\<close>
  steps from an erased node in the same way as soon as \<^verbatim>\<open>supportStack\<close> is not empty.
  The result is \<^verbatim>\<open>readyStack\<close> after \<^verbatim>\<open>readyStack.reverse()\<close>, from front to back.
\<close>

definition makeReversePolishNotationStack :: "'d lexeme list \<Rightarrow> fault + 'd lexeme list" where
  "makeReversePolishNotationStack lexemes =
     (case rpn_loop lexemes ([], []) of
        Inl f \<Rightarrow> Inl f
      | Inr (readyStack, []) \<Rightarrow> Inr (rev readyStack)
      | Inr (readyStack, front # supportStack) \<Rightarrow> Inl ErasedIterator)"

section \<open>Evaluation of the postfix sequence\<close>

definition calculateFunction :: "'d clib \<Rightarrow> 'd lexeme \<Rightarrow> 'd lexeme \<Rightarrow> 'd" where
  "calculateFunction L function v =
     (if ltype function = cos_t then d_cos L (val v)
      else if ltype function = sin_t then d_sin L (val v)
      else if ltype function = tan_t then d_tan L (val v)
      else if ltype function = log_t then d_log L (val v)
      else if ltype function = ln_t then d_log L (val v)
      else if ltype function = sqrt_t then d_sqrt L (val v)
      else if ltype function = abs_t then d_fabs L (val v)
      else if ltype function = sqr_t then d_pow L (val v) (of_int_d L 2)
      else of_int_d L 0)"

text \<open>\<^verbatim>\<open>double return_value = 0; ... return_value += operand1.value + operand2.value;\<close>\<close>

definition calculateTwoOperators :: "'d clib \<Rightarrow> 'd lexeme \<Rightarrow> 'd lexeme \<Rightarrow> 'd lexeme \<Rightarrow> 'd" where
  "calculateTwoOperators L operand1 operand2 operation =
     (if ltype operation = plus_t
      then d_add L (of_int_d L 0) (d_add L (val operand1) (val operand2))
      else if ltype operation = minus_t
      then d_add L (of_int_d L 0) (d_sub L (val operand1) (val operand2))
      else if ltype operation = mult_t
      then d_add L (of_int_d L 0) (d_mul L (val operand1) (val operand2))
      else if ltype operation = division_t
      then d_add L (of_int_d L 0) (d_div L (val operand1) (val operand2))
      else if ltype operation = pow_t
      then d_add L (of_int_d L 0) (d_pow L (val operand1) (val operand2))
      else of_int_d L 0)"

text \<open>
  The three iterators of \<^verbatim>\<open>calculateFullExpression\<close> stand on the positions \<open>k\<close>,
  \<open>k + 1\<close> and \<open>k + 2\<close> of \<^verbatim>\<open>readyStack\<close>. \<open>scan\<close> is the \<^verbatim>\<open>while\<close> loop that moves
  them; it reads \<^verbatim>\<open>current_it->type\<close> before anything else, which at \<^verbatim>\<open>end()\<close> is no
  element (\<open>None\<close>).
\<close>

function scan :: "'d lexeme list \<Rightarrow> nat \<Rightarrow> nat option" where
  "scan rs k =
     (if length rs \<le> k + 2 then None
      else if (ltype (rs ! (k + 2)) = number_t \<or> ltype (rs ! (k + 2)) = x_t)
              \<and> type_code (ltype (rs ! (k + 1))) < 11
      then scan rs (k + 1)
      else Some k)"
  by pat_completeness auto
termination
  by (relation "measure (\<lambda>(rs, k). length rs - k)") auto

declare scan.simps [simp del]

lemma scan_bound: "scan rs k = Some k' \<Longrightarrow> k' + 2 < length rs"
proof (induction rs k rule: scan.induct)
  case (1 rs k)
  show ?case
  proof (cases "length rs \<le> k + 2")
    case True
    with "1.prems" show ?thesis
      by (subst (asm) scan.simps) simp
  next
    case False
    show ?thesis
    proof (cases "(ltype (rs ! (k + 2)) = number_t \<or> ltype (rs ! (k + 2)) = x_t)
                  \<and> type_code (ltype (rs ! (k + 1))) < 11")
      case True
      with False "1.prems" have "scan rs (k + 1) = Some k'"
        by (subst (asm) scan.simps) simp
      with False True show ?thesis
        by (intro "1.IH") auto
    next
      case stop: False
      with False "1.prems" have "k' = k"
        by (subst (asm) scan.simps) auto
      with False show ?thesis
        by simp
    qed
  qed
qed

text \<open>What \<^verbatim>\<open>squeezeFunctionResultWithNmb\<close> does to \<^verbatim>\<open>readyStack\<close> before it calls
  \<^verbatim>\<open>calculateFullExpression\<close> again: the value lexeme at position \<open>v\<close> becomes a
  number, the function lexeme at position \<open>f\<close> is erased.\<close>

definition erase :: "'a list \<Rightarrow> nat \<Rightarrow> 'a list" where
  "erase rs i = take i rs @ drop (i + 1) rs"

definition squeezeFunctionResultWithNmb :: "'d clib \<Rightarrow> 'd lexeme list \<Rightarrow> nat \<Rightarrow> nat \<Rightarrow> 'd lexeme list" where
  "squeezeFunctionResultWithNmb L rs f v =
     erase (rs[v := (rs ! v)\<lparr>val := calculateFunction L (rs ! f) (rs ! v),
                               ltype := number_t, priority := 0\<rparr>]) f"

definition squeezeTwoOperators :: "'d clib \<Rightarrow> 'd lexeme list \<Rightarrow> nat \<Rightarrow> 'd lexeme list" where
  "squeezeTwoOperators L rs k =
     erase (erase (rs[k := (rs ! k)\<lparr>val := calculateTwoOperators L (rs ! k) (rs ! (k + 1)) (rs ! (k + 2)),
                                    ltype := number_t, priority := 0\<rparr>]) (k + 2)) (k + 1)"

function calculateFullExpression :: "'d clib \<Rightarrow> 'd lexeme list \<Rightarrow> fault + 'd" where
  "calculateFullExpression L rs =
     (if length rs = 1 then Inr (val (rs ! 0))
      else if length rs = 0 then Inl IteratorPastEnd
      else if length rs = 2 then Inr (calculateFunction L (rs ! 1) (rs ! 0))
      else (case scan rs 0 of
              None \<Rightarrow> Inl IteratorPastEnd
            | Some k \<Rightarrow>
                if 11 \<le> type_code (ltype (rs ! (k + 1)))
                then calculateFullExpression L (squeezeFunctionResultWithNmb L rs (k + 1) k)
                else if 11 \<le> type_code (ltype (rs ! (k + 2)))
                then calculateFullExpression L (squeezeFunctionResultWithNmb L rs (k + 2) (k + 1))
                else calculateFullExpression L (squeezeTwoOperators L rs k)))"
  by pat_completeness auto
termination
  by (relation "measure (\<lambda>(L, rs). length rs)")
     (auto simp: squeezeFunctionResultWithNmb_def squeezeTwoOperators_def erase_def
           dest!: scan_bound)

declare calculateFullExpression.simps [simp del]

section \<open>The controller and the facade\<close>

text \<open>\<^verbatim>\<open>MathParserController::requestCalculations\<close>, on the array that \<^verbatim>\<open>setInput\<close> has
  accepted; \<^verbatim>\<open>lexemesList\<close> is empty then, \<^verbatim>\<open>setInput\<close> has called \<^verbatim>\<open>freeData\<close>.\<close>

definition requestCalculations :: "'d clib \<Rightarrow> string \<Rightarrow> fault + 'd" where
  "requestCalculations L a =
     (case parseStringIntoLexemes L a of
        Inl f \<Rightarrow> Inl f
      | Inr lexemes \<Rightarrow>
          (case makeReversePolishNotationStack lexemes of
             Inl f \<Rightarrow> Inl f
           | Inr readyStack \<Rightarrow> calculateFullExpression L readyStack))"

text \<open>
  \<^verbatim>\<open>RpnMathParser::parseString(expression, err)\<close>. \<open>expression\<close> is the byte string that
  \<^verbatim>\<open>toLocal8Bit\<close> gives, \<open>err\<close> what the caller's string holds at the call, \<open>m255\<close> the
  last byte of the fresh model's array. The result is the returned \<^verbatim>\<open>double\<close> and the
  caller's string after the call, or the fault the call runs into.
\<close>

definition parseString :: "'d clib \<Rightarrow> char \<Rightarrow> string \<Rightarrow> string \<Rightarrow> fault + ('d \<times> string)" where
  "parseString L m255 expression err =
     (case setInput L m255 expression err of
        Inl f \<Rightarrow> Inl f
      | Inr (True, a, err) \<Rightarrow>
          (case requestCalculations L a of
             Inl f \<Rightarrow> Inl f
           | Inr result \<Rightarrow>
               if d_isnan L result then Inr (d_NAN L, msg_nan)
               else Inr (result, msg_success))
      | Inr (False, a, err) \<Rightarrow>
          Inr (d_NAN L, if err = [] then msg_incorrect else err))"

section \<open>An idealised library\<close>

text \<open>
  One value of the parameter \<open>L\<close>, for running the model: \<^verbatim>\<open>double\<close> as the real numbers
  with the two infinities and NaN. Where the result of an operation is not a real number
  it is the one that IEEE 754 and Annex F of the C standard give; rounding, overflow and
  the sign of zero are left out. \<^verbatim>\<open>sscanf\<close> reads decimal floating literals, the only ones
  the validator lets through, by the rule of the C standard: the longest prefix of the
  input that is, or starts, a literal is consumed, and nothing is converted unless it is
  a whole literal. A C string with a byte above 127 is decoded as Latin-1, one character
  for each byte.
\<close>

datatype ideal = Fin real | PInf | NInf | NaN

fun ideal_neg :: "ideal \<Rightarrow> ideal" where
  "ideal_neg (Fin a) = Fin (- a)"
| "ideal_neg PInf = NInf"
| "ideal_neg NInf = PInf"
| "ideal_neg NaN = NaN"

fun ideal_add :: "ideal \<Rightarrow> ideal \<Rightarrow> ideal" where
  "ideal_add NaN y = NaN"
| "ideal_add x NaN = NaN"
| "ideal_add (Fin a) (Fin b) = Fin (a + b)"
| "ideal_add PInf NInf = NaN"
| "ideal_add NInf PInf = NaN"
| "ideal_add PInf y = PInf"
| "ideal_add NInf y = NInf"
| "ideal_add (Fin a) y = y"

definition ideal_sub :: "ideal \<Rightarrow> ideal \<Rightarrow> ideal" where
  "ideal_sub x y = ideal_add x (ideal_neg y)"

text \<open>The sign of a value that is not NaN: \<open>True\<close> for negative.\<close>

fun ideal_negative :: "ideal \<Rightarrow> bool" where
  "ideal_negative (Fin a) = (a < 0)"
| "ideal_negative NInf = True"
| "ideal_negative x = False"

fun ideal_mul :: "ideal \<Rightarrow> ideal \<Rightarrow> ideal" where
  "ideal_mul NaN y = NaN"
| "ideal_mul x NaN = NaN"
| "ideal_mul (Fin a) (Fin b) = Fin (a * b)"
| "ideal_mul x y =
     (if x = Fin 0 \<or> y = Fin 0 then NaN
      else if ideal_negative x = ideal_negative y then PInf else NInf)"

fun ideal_div :: "ideal \<Rightarrow> ideal \<Rightarrow> ideal" where
  "ideal_div NaN y = NaN"
| "ideal_div x NaN = NaN"
| "ideal_div (Fin a) (Fin b) =
     (if b \<noteq> 0 then Fin (a / b)
      else if a = 0 then NaN
      else if a < 0 then NInf else PInf)"
| "ideal_div (Fin a) y = Fin 0"
| "ideal_div x (Fin b) = (if ideal_negative x = (b < 0) then PInf else NInf)"
| "ideal_div x y = NaN"

definition is_integer :: "real \<Rightarrow> bool" where
  "is_integer b = (of_int \<lfloor>b\<rfloor> = b)"

definition odd_integer :: "real \<Rightarrow> bool" where
  "odd_integer b = (is_integer b \<and> odd \<lfloor>b\<rfloor>)"

fun ideal_pow :: "ideal \<Rightarrow> ideal \<Rightarrow> ideal" where
  "ideal_pow x (Fin b) =
     (if b = 0 then Fin 1
      else case x of
        NaN \<Rightarrow> NaN
      | Fin a \<Rightarrow>
          if a = 0 then (if b < 0 then PInf else Fin 0)
          else if is_integer b then Fin (a powi \<lfloor>b\<rfloor>)
          else if a < 0 then NaN
          else Fin (a powr b)
      | PInf \<Rightarrow> if b < 0 then Fin 0 else PInf
      | NInf \<Rightarrow> if b < 0 then Fin 0 else if odd_integer b then NInf else PInf)"
| "ideal_pow x NaN = (if x = Fin 1 then Fin 1 else NaN)"
| "ideal_pow x PInf =
     (case x of
        NaN \<Rightarrow> NaN
      | Fin a \<Rightarrow> if \<bar>a\<bar> < 1 then Fin 0 else if \<bar>a\<bar> = 1 then Fin 1 else PInf
      | y \<Rightarrow> PInf)"
| "ideal_pow x NInf =
     (case x of
        NaN \<Rightarrow> NaN
      | Fin a \<Rightarrow> if a = 0 then PInf else if \<bar>a\<bar> < 1 then PInf
                 else if \<bar>a\<bar> = 1 then Fin 1 else Fin 0
      | y \<Rightarrow> Fin 0)"

fun ideal_trig :: "(real \<Rightarrow> real) \<Rightarrow> ideal \<Rightarrow> ideal" where
  "ideal_trig f (Fin a) = Fin (f a)"
| "ideal_trig f x = NaN"

fun ideal_log :: "ideal \<Rightarrow> ideal" where
  "ideal_log (Fin a) = (if a < 0 then NaN else if a = 0 then NInf else Fin (ln a))"
| "ideal_log PInf = PInf"
| "ideal_log x = NaN"

fun ideal_sqrt :: "ideal \<Rightarrow> ideal" where
  "ideal_sqrt (Fin a) = (if a < 0 then NaN else Fin (sqrt a))"
| "ideal_sqrt PInf = PInf"
| "ideal_sqrt x = NaN"

fun ideal_fabs :: "ideal \<Rightarrow> ideal" where
  "ideal_fabs (Fin a) = Fin \<bar>a\<bar>"
| "ideal_fabs NaN = NaN"
| "ideal_fabs x = PInf"

text \<open>Decimal literals: the digits at the head of a string and their value.\<close>

definition digits_of :: "string \<Rightarrow> string" where
  "digits_of s = takeWhile is_digit s"

definition digits_value :: "string \<Rightarrow> nat" where
  "digits_value ds = foldl (\<lambda>n c. 10 * n + (of_char c - 48)) 0 ds"

text \<open>An optional sign: the factor it stands for and its length.\<close>

definition sign_of :: "string \<Rightarrow> int \<times> nat" where
  "sign_of s = (case s of
                  c # r \<Rightarrow> if c = CHR ''-'' then (-1, 1) else if c = CHR ''+'' then (1, 1) else (1, 0)
                | [] \<Rightarrow> (1, 0))"

definition ideal_sscanf_le :: "string \<Rightarrow> (ideal \<times> nat) option" where
  "ideal_sscanf_le s =
     (let ip = digits_of s; r = drop (length ip) s in
      if ip = [] then None
      else
        (let fp = (if r \<noteq> [] \<and> hd r = CHR ''.'' then digits_of (tl r) else []);
             n = length ip + (if r \<noteq> [] \<and> hd r = CHR ''.'' then 1 + length fp else 0);
             mantissa = real (digits_value (ip @ fp)) / 10 ^ length fp;
             r = drop n s
         in if r \<noteq> [] \<and> (hd r = CHR ''e'' \<or> hd r = CHR ''E'') then
              (let (sg, k) = sign_of (tl r); ep = digits_of (drop (1 + k) r)
               in if ep = [] then None
                  else Some (Fin (mantissa * 10 powi (sg * int (digits_value ep))),
                             n + 1 + k + length ep))
            else Some (Fin mantissa, n)))"

definition ideal_sscanf_d :: "string \<Rightarrow> (int \<times> nat) option" where
  "ideal_sscanf_d s =
     (let (sg, k) = sign_of s; ds = digits_of (drop k s)
      in if ds = [] then None else Some (sg * int (digits_value ds), k + length ds))"

definition ideal_clib :: "ideal clib" where
  "ideal_clib =
     \<lparr>sscanf_le = ideal_sscanf_le, sscanf_d = ideal_sscanf_d, of_int_d = (\<lambda>i. Fin (of_int i)),
      d_add = ideal_add, d_sub = ideal_sub, d_mul = ideal_mul, d_div = ideal_div,
      d_pow = ideal_pow, d_cos = ideal_trig cos, d_sin = ideal_trig sin,
      d_tan = ideal_trig tan, d_log = ideal_log, d_sqrt = ideal_sqrt, d_fabs = ideal_fabs,
      d_isnan = (\<lambda>r. r = NaN), d_NAN = NaN, QString_decode = map of_char\<rparr>"

section \<open>Properties of the buffer\<close>

lemma cstr_take: "cstr (take n s) = take n (cstr s)"
  unfolding cstr_def by (induction s arbitrary: n) (auto simp: take_Cons split: nat.splits)

lemma strncpy_input_take: "strncpy_input m255 (take 255 str) = strncpy_input m255 str"
  unfolding strncpy_input_def cstr_take by (simp add: min_def)

lemma strncpy_input_short:
  "length (cstr s) < 255 \<Longrightarrow>
   strncpy_input m s = cstr s @ NUL # (replicate (254 - length (cstr s)) NUL @ [m])"
  unfolding strncpy_input_def
  by (simp add: replicate_append_same flip: replicate_Suc)

text \<open>
  Claim C9. Only the first 255 characters of the input are processed:
  \<^verbatim>\<open>parseString\<close> on a string returns what it returns on the first 255 bytes of that
  string, result and message alike (and runs into the same fault, when it does).
\<close>

theorem parseString_first_255:
  "parseString L m255 (take 255 expression) err = parseString L m255 expression err"
  unfolding parseString_def setInput_def strncpy_input_take ..

lemma cstr_Cons: "cstr (c # s) = (if c = NUL then [] else c # cstr s)"
  by (simp add: cstr_def)

lemma cstr_drop:
  "i < length a \<Longrightarrow> cstr (drop i a) = (if a ! i = NUL then [] else a ! i # cstr (drop (Suc i) a))"
  by (simp add: cstr_Cons flip: Cons_nth_drop_Suc)

lemma removeSpaces_loop_correct:
  assumes "j \<le> i" and "NUL \<in> set (drop i a)"
  shows "\<exists>out. removeSpaces_loop a i j = Inr out \<and> length out = length a
           \<and> take j out = take j a
           \<and> cstr (drop j out) = filter (\<lambda>c. c \<noteq> CHR '' '') (cstr (drop i a))"
  using assms
proof (induction a i j rule: removeSpaces_loop.induct)
  case (1 a i j)
  from "1.prems"(2) have i: "i < length a"
    by (cases "i < length a") auto
  with "1.prems"(1) have j: "j < length a"
    by simp
  show ?case
  proof (cases "a ! i = NUL")
    case True
    with i have "removeSpaces_loop a i j = Inr (a[j := NUL])"
      by (subst removeSpaces_loop.simps) simp
    moreover from j have "cstr (drop j (a[j := NUL])) = []"
      by (simp add: cstr_drop)
    moreover from i True have "cstr (drop i a) = []"
      by (simp add: cstr_drop)
    ultimately show ?thesis
      by simp
  next
    case False
    from i False "1.prems"(2) have rest: "NUL \<in> set (drop (Suc i) a)"
      by (subst (asm) Cons_nth_drop_Suc [symmetric]) auto
    show ?thesis
    proof (cases "a ! i = CHR '' ''")
      case True
      with i False have eq: "removeSpaces_loop a i j = removeSpaces_loop a (i + 1) j"
        by (subst removeSpaces_loop.simps) simp
      from "1.prems"(1) rest i False True
      obtain out where "removeSpaces_loop a (i + 1) j = Inr out" "length out = length a"
        "take j out = take j a"
        "cstr (drop j out) = filter (\<lambda>c. c \<noteq> CHR '' '') (cstr (drop (i + 1) a))"
        using "1.IH"(1) by force
      with eq i False True show ?thesis
        by (simp add: cstr_drop)
    next
      case other: False
      let ?b = "a[j := a ! i]"
      from i False other have eq: "removeSpaces_loop a i j = removeSpaces_loop ?b (i + 1) (j + 1)"
        by (subst removeSpaces_loop.simps) simp
      from "1.prems"(1) have same: "drop (Suc i) ?b = drop (Suc i) a"
        by simp
      from "1.prems"(1) rest same i False other
      obtain out where out: "removeSpaces_loop ?b (i + 1) (j + 1) = Inr out"
        "length out = length ?b" "take (j + 1) out = take (j + 1) ?b"
        "cstr (drop (j + 1) out) = filter (\<lambda>c. c \<noteq> CHR '' '') (cstr (drop (i + 1) ?b))"
        using "1.IH"(2) by force
      from out(3) have "take j (take (j + 1) out) = take j (take (j + 1) ?b)"
        by simp
      then have tj: "take j out = take j a"
        by (simp add: min_def)
      from out(3) j out(2) have "take (j + 1) out ! j = take (j + 1) ?b ! j"
        by simp
      with j have oj: "out ! j = a ! i"
        by simp
      from j out(2) have "cstr (drop j out) = (if out ! j = NUL then [] else out ! j # cstr (drop (Suc j) out))"
        by (simp add: cstr_drop)
      with oj False out(4) same have "cstr (drop j out) = a ! i # filter (\<lambda>c. c \<noteq> CHR '' '') (cstr (drop (Suc i) a))"
        by simp
      with eq out(1,2) tj i False other show ?thesis
        by (simp add: cstr_drop)
    qed
  qed
qed

section \<open>Running the program on a given input\<close>

text \<open>The equations that unfold the validator, the tokenizer, the conversion and the
  evaluator on a concrete buffer.\<close>

lemmas val_simps = removeSpaces_def removeSpaces_loop.simps checkCorrectParentheses_def QString_of_def
  checkOperatorAndOperandsOrder_def order_loop.simps isFunction.simps try_sign_def try_operator_def
  paren_flags_def isSign_def isOperator_def isNumber_def number_loop.simps skip_digits.simps
  checkExponentionalForm_def function_name_length_def strncmp0_def probe_def cur_def advance_def
  byte_at_def cstr_def is_digit_def Let_def

lemmas tok_simps = tokenize_loop.simps tokenize_step_def addNumberToList_def addOperatorToList_def
  addFunctionToList_def addParenthesesToList_def function_at_def strncmp0_def byte_at_def
  cstr_from_def cstr_def is_digit_def mk_lexeme_def Let_def

lemmas rpn_simps = makeReversePolishNotationStack_def

lemmas calc_simps = calculateFullExpression.simps scan.simps squeezeFunctionResultWithNmb_def
  squeezeTwoOperators_def erase_def calculateFunction_def calculateTwoOperators_def

lemmas ideal_simps = ideal_clib_def ideal_sscanf_le_def ideal_sscanf_d_def digits_of_def
  digits_value_def sign_of_def ideal_sub_def is_integer_def odd_integer_def

lemmas msg_simps = msg_negative_power_def msg_missing_argument_def msg_dot_def msg_exponent_def
  QString_number.simps digit_char_def

lemma ideal_clib_sel:
  "sscanf_le ideal_clib = ideal_sscanf_le" "sscanf_d ideal_clib = ideal_sscanf_d"
  "of_int_d ideal_clib = (\<lambda>i. Fin (of_int i))" "d_add ideal_clib = ideal_add"
  "d_sub ideal_clib = ideal_sub" "d_mul ideal_clib = ideal_mul" "d_div ideal_clib = ideal_div"
  "d_pow ideal_clib = ideal_pow" "d_cos ideal_clib = ideal_trig cos"
  "d_sin ideal_clib = ideal_trig sin" "d_tan ideal_clib = ideal_trig tan"
  "d_log ideal_clib = ideal_log" "d_sqrt ideal_clib = ideal_sqrt" "d_fabs ideal_clib = ideal_fabs"
  "d_isnan ideal_clib = (\<lambda>r. r = NaN)" "d_NAN ideal_clib = NaN"
  "QString_decode ideal_clib = map of_char"
  by (simp_all add: ideal_clib_def)

lemma strncpy_input_literal:
  "length s < 255 \<Longrightarrow> NUL \<notin> set s \<Longrightarrow>
   strncpy_input m s = s @ NUL # (replicate (254 - length s) NUL @ [m])"
proof -
  assume "NUL \<notin> set s"
  then have "cstr s = s"
    by (auto simp: cstr_def takeWhile_eq_all_conv)
  moreover assume "length s < 255"
  ultimately show ?thesis
    using strncpy_input_short [of s m] by simp
qed

section \<open>The claims about the normalizer and the validator\<close>

text \<open>
  Claim C5, as amended. On a buffer that holds a terminated string \<^verbatim>\<open>removeSpaces\<close>
  does not fail, keeps the size of the array, and leaves as its string the old one
  without its space characters (0x20): every other character stays, in the same order.
\<close>

theorem removeSpaces_removes_spaces:
  assumes "NUL \<in> set a"
  shows "\<exists>out. removeSpaces a = Inr out \<and> length out = length a
           \<and> cstr out = filter (\<lambda>c. c \<noteq> CHR '' '') (cstr a)"
  using removeSpaces_loop_correct [of 0 0 a] assms
  by (simp add: removeSpaces_def)

theorem removeSpaces_removes_spaces_witness:
  "NUL \<in> set (''1 + 2'' @ [NUL])
   \<and> (\<exists>out. removeSpaces (''1 + 2'' @ [NUL]) = Inr out \<and> length out = length (''1 + 2'' @ [NUL])
           \<and> cstr out = filter (\<lambda>c. c \<noteq> CHR '' '') (cstr (''1 + 2'' @ [NUL])))"
  using removeSpaces_removes_spaces [of "''1 + 2'' @ [NUL]"] by simp

text \<open>
  Claim C5 as the specification has it fails: a tabulator (0x09) is a whitespace
  character, and \<^verbatim>\<open>removeSpaces\<close> leaves it where it is.
\<close>

theorem removeSpaces_keeps_tab:
  "removeSpaces [CHR ''1'', CHR 0x09, CHR ''2'', NUL] = Inr [CHR ''1'', CHR 0x09, CHR ''2'', NUL]"
  by (simp add: removeSpaces_def removeSpaces_loop.simps)

text \<open>
  Claim C2 fails on the code. \<^verbatim>\<open>checkCorrectParentheses\<close> tests its counter once, after
  the loop (\<^verbatim>\<open>return parentheses_counter == 0;\<close>), and never while it counts. In
  \<^verbatim>\<open>1)+(2\<close> the counter is \<open>-1\<close> after the second character, more closing than opening
  parentheses, and ends at zero: the validator accepts the input and leaves the error
  string empty. An input whose counter does not end at zero, such as \<^verbatim>\<open>(1+2\<close>, is
  rejected with the message for mismatched parentheses.
\<close>

theorem negative_running_balance_accepted:
  "map_sum (\<lambda>f. f) (\<lambda>(ok, a, e). (ok, e)) (setInput L NUL ''1)+(2'' []) = Inr (True, [])
   \<and> map_sum (\<lambda>f. f) (\<lambda>(ok, a, e). (ok, e)) (setInput L NUL ''(1+2'' [])
       = Inr (False, ''Error: Mismatched parentheses! Possibly a missing closing parenthesis'')"
proof -
  have a: "checkCorrectInput L (''1)+(2'' @ NUL # r) [] = Inr (True, ''1)+(2'' @ NUL # r, [])" for r
    unfolding checkCorrectInput_def by (simp add: val_simps)
  have b: "checkCorrectInput L (''(1+2'' @ NUL # r) [] = Inr (False, ''(1+2'' @ NUL # r, msg_parentheses)" for r
    unfolding checkCorrectInput_def by (simp add: val_simps)
  show ?thesis
    by (simp add: setInput_def strncpy_input_literal a [simplified] b [simplified] msg_parentheses_def)
qed

text \<open>
  Claim C3 fails on the code. For the input \<^verbatim>\<open>1 + 2^-1\<close> the message gives position 4:
  that is the place of \<^verbatim>\<open>^\<close> in the buffer after \<^verbatim>\<open>removeSpaces\<close>; in the string the
  caller supplied, \<^verbatim>\<open>^\<close> is the sixth character and the fourth is a space.
\<close>

theorem position_after_spaces_removed:
  "parseString L NUL ''1 + 2^-1'' [] = Inr (d_NAN L,
     ''Error! Missing parentheses when raising to a negative power! Location: 4 character'')"
proof -
  have "checkCorrectInput L (''1 + 2^-1'' @ NUL # r) [] = Inr (False, ''1+2^-1'' @ NUL # CHR ''1'' # NUL # r,
             ''Error! Missing parentheses when raising to a negative power! Location: 4 character'')" for r
    unfolding checkCorrectInput_def by (simp add: val_simps msg_simps)
  then show ?thesis
    by (simp add: parseString_def setInput_def strncpy_input_literal)
qed

text \<open>
  Claim C10 fails on the code. The input \<^verbatim>\<open>)1(\<close> passes \<^verbatim>\<open>checkCorrectInput\<close>: its
  counter ends at zero, and the order check steps over parentheses. Its first lexeme is
  the closing parenthesis, and \<^verbatim>\<open>handleCloseParentheses\<close> reads the front of the empty
  \<^verbatim>\<open>supportStack\<close>.
\<close>

lemma close_open_valid:
  "checkCorrectInput L ('')1('' @ NUL # r) [] = Inr (True, '')1('' @ NUL # r, [])"
  unfolding checkCorrectInput_def by (simp add: val_simps)

theorem close_reads_empty_stack:
  "map_sum id fst (setInput L NUL '')1('' []) = Inr True
   \<and> parseString ideal_clib NUL '')1('' [] = Inl EmptyStackRead"
proof -
  note v = close_open_valid
  have t: "parseStringIntoLexemes ideal_clib ('')1('' @ NUL # r)
            = Inr [mk_lexeme (Fin 0) 0 close_p, mk_lexeme (Fin 1) 0 number_t, mk_lexeme (Fin 0) 0 open_p]" for r
    unfolding parseStringIntoLexemes_def by (simp add: tok_simps ideal_simps)
  show ?thesis
    by (simp add: parseString_def setInput_def strncpy_input_literal v [simplified]
        requestCalculations_def t [simplified] rpn_simps mk_lexeme_def)
qed

section \<open>The claims about the tokenizer and the conversion to postfix order\<close>

lemma mk_lexeme_sel [simp]:
  "val (mk_lexeme v p t) = v" "priority (mk_lexeme v p t) = p" "ltype (mk_lexeme v p t) = t"
  by (simp_all add: mk_lexeme_def)

subsection \<open>An operator that leaves the stack\<close>

lemma sum_valid:
  "checkCorrectInput L (''2+3'' @ NUL # r) [] = Inr (True, ''2+3'' @ NUL # r, [])"
  unfolding checkCorrectInput_def by (simp add: val_simps)

lemma sum_lexemes:
  "parseStringIntoLexemes ideal_clib (''2+3'' @ NUL # r)
     = Inr [mk_lexeme (Fin 2) 0 number_t, mk_lexeme (Fin 0) 1 plus_t, mk_lexeme (Fin 3) 0 number_t]"
  unfolding parseStringIntoLexemes_def by (simp add: tok_simps ideal_simps)

text \<open>
  Claim C1 fails on the code. \<^verbatim>\<open>2+3\<close> passes validation and is read as the lexemes
  \<open>2\<close>, \<open>+\<close>, \<open>3\<close>. The conversion leaves \<open>+\<close> on \<^verbatim>\<open>supportStack\<close>; its last loop moves
  it to \<^verbatim>\<open>readyStack\<close>, which erases the node its iterator stands on, and then steps
  the iterator: \<^verbatim>\<open>parseString\<close> has no defined result, where every reference evaluator
  gives 5. The evaluator of the source gives 5 as well when it is run on the postfix
  sequence \<open>2 3 +\<close> that the conversion was written to produce.
\<close>

theorem sum_erased_iterator:
  "map_sum (\<lambda>f. f) fst (setInput ideal_clib NUL ''2+3'' []) = Inr True
   \<and> parseStringIntoLexemes ideal_clib (strncpy_input NUL ''2+3'')
       = Inr [mk_lexeme (Fin 2) 0 number_t, mk_lexeme (Fin 0) 1 plus_t, mk_lexeme (Fin 3) 0 number_t]
   \<and> parseString ideal_clib NUL ''2+3'' [] = Inl ErasedIterator
   \<and> calculateFullExpression ideal_clib
         [mk_lexeme (Fin 2) 0 number_t, mk_lexeme (Fin 3) 0 number_t, mk_lexeme (Fin 0) 1 plus_t]
       = Inr (Fin 5)"
proof -
  have "calculateFullExpression ideal_clib
         [mk_lexeme (Fin 2) 0 number_t, mk_lexeme (Fin 3) 0 number_t, mk_lexeme (Fin 0) 1 plus_t]
       = Inr (Fin 5)"
    by (simp add: calc_simps ideal_clib_sel mk_lexeme_def)
  then show ?thesis
    by (simp add: parseString_def setInput_def strncpy_input_literal sum_valid [simplified]
        requestCalculations_def sum_lexemes [simplified] rpn_simps)
qed

subsection \<open>Operators of equal priority\<close>

lemma power_chain_valid:
  "checkCorrectInput L (''2^3^2'' @ NUL # r) [] = Inr (True, ''2^3^2'' @ NUL # r, [])"
  unfolding checkCorrectInput_def by (simp add: val_simps)

lemma power_chain_lexemes:
  "parseStringIntoLexemes ideal_clib (''2^3^2'' @ NUL # r)
     = Inr [mk_lexeme (Fin 2) 0 number_t, mk_lexeme (Fin 0) 3 pow_t, mk_lexeme (Fin 3) 0 number_t,
            mk_lexeme (Fin 0) 3 pow_t, mk_lexeme (Fin 2) 0 number_t]"
  unfolding parseStringIntoLexemes_def by (simp add: tok_simps ideal_simps)

text \<open>
  Claim C4 fails on the code. An operator that arrives while an operator of the same
  priority is the front of \<^verbatim>\<open>supportStack\<close> makes the loop of \<^verbatim>\<open>handleSupportStack\<close>
  move that front to \<^verbatim>\<open>readyStack\<close>, as the claim says, but the loop then steps its
  iterator from the node that the move has erased. No expression with two operators of
  one priority in a row gets as far as the evaluator: \<^verbatim>\<open>parseString\<close> on \<^verbatim>\<open>2^3^2\<close>,
  which passes validation, has no defined result, and so does not return 64.
\<close>

theorem equal_priority_erased_iterator:
  "handleSupportStack (mk_lexeme z p t2) (readyStack, mk_lexeme z' p t1 # supportStack)
     = Inl ErasedIterator
   \<and> map_sum (\<lambda>f. f) fst (setInput ideal_clib NUL ''2^3^2'' []) = Inr True
   \<and> parseStringIntoLexemes ideal_clib (strncpy_input NUL ''2^3^2'')
       = Inr [mk_lexeme (Fin 2) 0 number_t, mk_lexeme (Fin 0) 3 pow_t, mk_lexeme (Fin 3) 0 number_t,
              mk_lexeme (Fin 0) 3 pow_t, mk_lexeme (Fin 2) 0 number_t]
   \<and> parseString ideal_clib NUL ''2^3^2'' [] = Inl ErasedIterator"
  by (simp add: parseString_def setInput_def strncpy_input_literal power_chain_valid [simplified]
      requestCalculations_def power_chain_lexemes [simplified] rpn_simps)

subsection \<open>Unary signs\<close>

text \<open>
  The tokenizer as the specification words it: a sign is unary when it is the first
  lexeme or when the lexeme before it is an opening parenthesis, and then a number
  lexeme 0 goes before the sign. \<open>at_start\<close> and \<open>after_open\<close> say which lexeme came
  last. Numbers, functions and the other operators are read as the source reads them.
\<close>

record 'd sstate =
  sindex :: nat
  at_start :: bool
  after_open :: bool
  emitted :: "'d lexeme list"

definition is_sign :: "char \<Rightarrow> bool" where
  "is_sign c = (c = CHR ''+'' \<or> c = CHR ''-'')"

definition sign_lexeme :: "'d clib \<Rightarrow> char \<Rightarrow> 'd lexeme" where
  "sign_lexeme L c = mk_lexeme (of_int_d L 0) 1 (if c = CHR ''+'' then plus_t else minus_t)"

definition unary_step :: "'d clib \<Rightarrow> string \<Rightarrow> 'd sstate \<Rightarrow> fault + 'd sstate" where
  "unary_step L a s =
     (let c = byte_at a (sindex s) in
      if is_sign c then
        Inr \<lparr>sindex = sindex s + 1, at_start = False, after_open = False,
             emitted = emitted s
               @ (if at_start s \<or> after_open s then [mk_lexeme (of_int_d L 0) 0 number_t] else [])
               @ [sign_lexeme L c]\<rparr>
      else if c = CHR ''('' then
        Inr \<lparr>sindex = sindex s + 1, at_start = False, after_open = True,
             emitted = emitted s @ [mk_lexeme (of_int_d L 0) 0 open_p]\<rparr>
      else
        (case tokenize_step L a \<lparr>lindex = sindex s, unarySignFlag = False, firstSignFlag = False,
                                  lexemesList = emitted s\<rparr> of
           Inl f \<Rightarrow> Inl f
         | Inr st \<Rightarrow> Inr \<lparr>sindex = lindex st, at_start = False, after_open = False,
                           emitted = lexemesList st\<rparr>))"

text \<open>The state of the source's loop that goes with a state of this one: the two flags
  of the source only matter when the byte at the index is a sign.\<close>

definition state_of :: "string \<Rightarrow> 'd sstate \<Rightarrow> 'd lstate" where
  "state_of a s =
     \<lparr>lindex = sindex s,
      unarySignFlag = (after_open s \<and> is_sign (byte_at a (sindex s))),
      firstSignFlag = (at_start s \<and> is_sign (byte_at a (sindex s))),
      lexemesList = emitted s\<rparr>"

lemma tokenize_step_unary:
  "tokenize_step L a (state_of a s) = map_sum (\<lambda>f. f) (state_of a) (unary_step L a s)"
proof (cases "is_sign (byte_at a (sindex s))")
  case True
  then show ?thesis
    by (auto simp: tokenize_step_def unary_step_def state_of_def is_sign_def sign_lexeme_def
        addOperatorToList_def is_digit_def Let_def)
next
  case False
  show ?thesis
  proof (cases "byte_at a (sindex s) = CHR ''(''")
    case True
    then show ?thesis
      by (auto simp: tokenize_step_def unary_step_def state_of_def is_sign_def
          addParenthesesToList_def is_digit_def Let_def)
  next
    case no_open: False
    with False show ?thesis
      by (auto simp: tokenize_step_def unary_step_def state_of_def is_sign_def
          addParenthesesToList_def addOperatorToList_def addFunctionToList_def addNumberToList_def
          Let_def split: sum.splits option.splits prod.splits)
  qed
qed

lemma unary_step_progress:
  assumes "unary_step L a s = Inr s'"
  shows "sindex s < sindex s'"
proof -
  from assms have "tokenize_step L a (state_of a s) = Inr (state_of a s')"
    by (simp add: tokenize_step_unary)
  then have "lindex (state_of a s) < lindex (state_of a s')"
    by (rule tokenize_step_progress)
  then show ?thesis
    by (simp add: state_of_def)
qed

function unary_loop :: "'d clib \<Rightarrow> string \<Rightarrow> 'd sstate \<Rightarrow> fault + 'd sstate" where
  "unary_loop L a s =
     (if length a \<le> sindex s then Inl BufferOverrun
      else if byte_at a (sindex s) = NUL then Inr s
      else (case unary_step L a s of
              Inl f \<Rightarrow> Inl f
            | Inr s' \<Rightarrow> unary_loop L a s'))"
  by pat_completeness auto
termination
  by (relation "measure (\<lambda>(L, a, s). length a - sindex s)")
     (auto dest: unary_step_progress)

declare unary_loop.simps [simp del]

definition tokenize_unary :: "'d clib \<Rightarrow> string \<Rightarrow> fault + 'd lexeme list" where
  "tokenize_unary L a =
     (case unary_loop L a \<lparr>sindex = 0, at_start = True, after_open = False, emitted = []\<rparr> of
        Inl f \<Rightarrow> Inl f
      | Inr s \<Rightarrow> Inr (emitted s))"

lemma tokenize_loop_unary:
  "tokenize_loop L a (state_of a s) = map_sum (\<lambda>f. f) (state_of a) (unary_loop L a s)"
proof (induction L a s rule: unary_loop.induct)
  case (1 L a s)
  show ?case
  proof (cases "length a \<le> sindex s \<or> byte_at a (sindex s) = NUL")
    case True
    then show ?thesis
      by (subst tokenize_loop.simps, subst unary_loop.simps) (auto simp: state_of_def)
  next
    case False
    have unfold: "tokenize_loop L a (state_of a s) =
        (case tokenize_step L a (state_of a s) of Inl f \<Rightarrow> Inl f | Inr st' \<Rightarrow> tokenize_loop L a st')"
      using False by (subst tokenize_loop.simps) (simp add: state_of_def)
    have unfold': "unary_loop L a s =
        (case unary_step L a s of Inl f \<Rightarrow> Inl f | Inr s' \<Rightarrow> unary_loop L a s')"
      using False by (subst unary_loop.simps) simp
    show ?thesis
    proof (cases "unary_step L a s")
      case (Inl f)
      then show ?thesis
        unfolding unfold unfold' by (simp add: tokenize_step_unary)
    next
      case (Inr s')
      with False have "tokenize_loop L a (state_of a s') = map_sum (\<lambda>f. f) (state_of a) (unary_loop L a s')"
        by (intro "1.IH") auto
      with Inr show ?thesis
        unfolding unfold unfold' by (simp add: tokenize_step_unary)
    qed
  qed
qed

lemma parseStringIntoLexemes_unary: "parseStringIntoLexemes L a = tokenize_unary L a"
proof -
  have "state_of a \<lparr>sindex = 0, at_start = True, after_open = False, emitted = []\<rparr>
          = \<lparr>lindex = 0, unarySignFlag = False,
              firstSignFlag = (byte_at a 0 = CHR ''-'' \<or> byte_at a 0 = CHR ''+''),
              lexemesList = []\<rparr>"
    by (auto simp: state_of_def is_sign_def)
  then show ?thesis
    unfolding parseStringIntoLexemes_def tokenize_unary_def
    using tokenize_loop_unary [of L a "\<lparr>sindex = 0, at_start = True, after_open = False, emitted = []\<rparr>"]
    by (auto simp: state_of_def split: sum.splits)
qed

lemma minus_5_plus_3_valid:
  "checkCorrectInput L (''-5+3'' @ NUL # r) [] = Inr (True, ''-5+3'' @ NUL # r, [])"
  unfolding checkCorrectInput_def by (simp add: val_simps)

lemma minus_5_plus_3_lexemes:
  "parseStringIntoLexemes ideal_clib (''-5+3'' @ NUL # r)
     = Inr [mk_lexeme (Fin 0) 0 number_t, mk_lexeme (Fin 0) 1 minus_t, mk_lexeme (Fin 5) 0 number_t,
            mk_lexeme (Fin 0) 1 plus_t, mk_lexeme (Fin 3) 0 number_t]"
  unfolding parseStringIntoLexemes_def by (simp add: tok_simps ideal_simps)

text \<open>
  Claim C6 fails on the code. Its first half holds: on every buffer the tokenizer of the
  source produces what the tokenizer of the specification produces, where a \<^verbatim>\<open>+\<close> or
  \<^verbatim>\<open>-\<close> at the very start or right after \<^verbatim>\<open>(\<close> is preceded by a number lexeme 0 and no
  other sign is; \<^verbatim>\<open>-5+3\<close> is read as \<open>0\<close>, \<open>-\<close>, \<open>5\<close>, \<open>+\<close>, \<open>3\<close>. But \<^verbatim>\<open>parseString\<close> does
  not return -2 for it: when \<open>+\<close> arrives, \<open>-\<close> is the front of \<^verbatim>\<open>supportStack\<close> and has
  the same priority, and the loop of \<^verbatim>\<open>handleSupportStack\<close> steps its iterator from the
  node it has erased.
\<close>

theorem unary_sign_erased_iterator:
  "parseStringIntoLexemes L a = tokenize_unary L a
   \<and> map_sum (\<lambda>f. f) fst (setInput ideal_clib NUL ''-5+3'' []) = Inr True
   \<and> parseStringIntoLexemes ideal_clib (strncpy_input NUL ''-5+3'')
       = Inr [mk_lexeme (Fin 0) 0 number_t, mk_lexeme (Fin 0) 1 minus_t, mk_lexeme (Fin 5) 0 number_t,
              mk_lexeme (Fin 0) 1 plus_t, mk_lexeme (Fin 3) 0 number_t]
   \<and> parseString ideal_clib NUL ''-5+3'' [] = Inl ErasedIterator"
  by (simp add: parseStringIntoLexemes_unary [of L a] parseString_def setInput_def
      strncpy_input_literal minus_5_plus_3_valid [simplified] requestCalculations_def
      minus_5_plus_3_lexemes [simplified] rpn_simps)

subsection \<open>Expressions that reach the evaluator\<close>

text \<open>
  When every operator is taken from \<^verbatim>\<open>supportStack\<close> by a closing parenthesis, neither
  loop steps from an erased node, and the call returns: with its operations grouped by
  parentheses, the power chain gives 64 and the sum with the unary sign gives -2.
\<close>

lemma grouped_power_valid:
  "checkCorrectInput L (''((2^3)^2)'' @ NUL # r) [] = Inr (True, ''((2^3)^2)'' @ NUL # r, [])"
  unfolding checkCorrectInput_def by (simp add: val_simps)

lemma grouped_power_lexemes:
  "parseStringIntoLexemes ideal_clib (''((2^3)^2)'' @ NUL # r)
     = Inr [mk_lexeme (Fin 0) 0 open_p, mk_lexeme (Fin 0) 0 open_p, mk_lexeme (Fin 2) 0 number_t,
            mk_lexeme (Fin 0) 3 pow_t, mk_lexeme (Fin 3) 0 number_t, mk_lexeme (Fin 0) 0 close_p,
            mk_lexeme (Fin 0) 3 pow_t, mk_lexeme (Fin 2) 0 number_t, mk_lexeme (Fin 0) 0 close_p]"
  unfolding parseStringIntoLexemes_def by (simp add: tok_simps ideal_simps)

lemma grouped_power:
  "parseString ideal_clib NUL ''((2^3)^2)'' [] = Inr (Fin 64, ''Success!'')"
  by (simp add: parseString_def setInput_def strncpy_input_literal grouped_power_valid [simplified]
      requestCalculations_def grouped_power_lexemes [simplified] rpn_simps calc_simps
      ideal_clib_sel msg_success_def is_integer_def)

lemma grouped_sign_valid:
  "checkCorrectInput L (''((-5)+3)'' @ NUL # r) [] = Inr (True, ''((-5)+3)'' @ NUL # r, [])"
  unfolding checkCorrectInput_def by (simp add: val_simps)

lemma grouped_sign_lexemes:
  "parseStringIntoLexemes ideal_clib (''((-5)+3)'' @ NUL # r)
     = Inr [mk_lexeme (Fin 0) 0 open_p, mk_lexeme (Fin 0) 0 open_p, mk_lexeme (Fin 0) 0 number_t,
            mk_lexeme (Fin 0) 1 minus_t, mk_lexeme (Fin 5) 0 number_t, mk_lexeme (Fin 0) 0 close_p,
            mk_lexeme (Fin 0) 1 plus_t, mk_lexeme (Fin 3) 0 number_t, mk_lexeme (Fin 0) 0 close_p]"
  unfolding parseStringIntoLexemes_def by (simp add: tok_simps ideal_simps)

lemma grouped_sign:
  "parseString ideal_clib NUL ''((-5)+3)'' [] = Inr (Fin (- 2), ''Success!'')"
  by (simp add: parseString_def setInput_def strncpy_input_literal grouped_sign_valid [simplified]
      requestCalculations_def grouped_sign_lexemes [simplified] rpn_simps calc_simps
      ideal_clib_sel msg_success_def ideal_sub_def)

section \<open>What a call does to the caller's error string\<close>

text \<open>
  The validator never reads the error string except to ask whether it is empty, and it
  writes it in three ways only: it leaves it alone, it stores a message, or it stores a
  message when the string is empty. \<open>msgfun M K\<close> says that \<open>K\<close> is one of these three
  functions of the old string, with a message from \<open>M\<close>; \<open>follows M g st\<close> says that the
  scanner \<open>g\<close>, started in \<open>st\<close> with any error string, returns the same flag and the
  same state but for the error string, which is such a function of the old one.
\<close>

definition msgfun :: "string set \<Rightarrow> (string \<Rightarrow> string) \<Rightarrow> bool" where
  "msgfun M K = (K = (\<lambda>e. e) \<or> (\<exists>w\<in>M. K = (\<lambda>e. w)) \<or> (\<exists>w\<in>M. K = (\<lambda>e. if e = [] then w else e)))"

definition follows :: "string set \<Rightarrow> (vstate \<Rightarrow> bool \<times> vstate) \<Rightarrow> vstate \<Rightarrow> bool" where
  "follows M g st =
     (\<exists>K. msgfun M K \<and>
          (\<forall>e. g (st\<lparr>errorString := e\<rparr>) = (fst (g st), (snd (g st))\<lparr>errorString := K e\<rparr>)))"

definition seq :: "(vstate \<Rightarrow> bool \<times> vstate) \<Rightarrow> (bool \<Rightarrow> vstate \<Rightarrow> bool \<times> vstate) \<Rightarrow> vstate \<Rightarrow> bool \<times> vstate" where
  "seq g h st = (case g st of (b, st') \<Rightarrow> h b st')"

lemma msgfun_id: "msgfun M (\<lambda>e. e)"
  by (simp add: msgfun_def)

lemma msgfun_const: "w \<in> M \<Longrightarrow> msgfun M (\<lambda>e. w)"
  by (auto simp: msgfun_def)

lemma msgfun_default: "w \<in> M \<Longrightarrow> msgfun M (\<lambda>e. if e = [] then w else e)"
  by (auto simp: msgfun_def)

lemma msgfun_comp:
  assumes "[] \<notin> M" and "msgfun M K1" and "msgfun M K2"
  shows "msgfun M (\<lambda>e. K2 (K1 e))"
proof -
  consider "K2 = (\<lambda>e. e)" | w where "w \<in> M" "K2 = (\<lambda>e. w)"
    | w where "w \<in> M" "K2 = (\<lambda>e. if e = [] then w else e)"
    using assms(3) by (auto simp: msgfun_def)
  then show ?thesis
  proof cases
    case 1
    with assms(2) show ?thesis by simp
  next
    case 2
    then show ?thesis by (simp add: msgfun_const)
  next
    case 3
    consider "K1 = (\<lambda>e. e)" | v where "v \<in> M" "K1 = (\<lambda>e. v)"
      | v where "v \<in> M" "K1 = (\<lambda>e. if e = [] then v else e)"
      using assms(2) by (auto simp: msgfun_def)
    then show ?thesis
    proof cases
      case 1
      with 3 show ?thesis by (simp add: msgfun_default)
    next
      case 2
      with 3 assms(1) have "(\<lambda>e. K2 (K1 e)) = (\<lambda>e. v)"
        by auto
      with 2 show ?thesis by (simp add: msgfun_const)
    next
      case c: 3
      with 3 assms(1) have "(\<lambda>e. K2 (K1 e)) = (\<lambda>e. if e = [] then v else e)"
        by (auto simp: fun_eq_iff)
      with c show ?thesis by (simp add: msgfun_default)
    qed
  qed
qed

lemma msgfun_idem: "[] \<notin> M \<Longrightarrow> msgfun M K \<Longrightarrow> K (K e) = K e"
  by (auto simp: msgfun_def)


lemma follows_seq:
  assumes "[] \<notin> M" and "follows M g st" and "follows M (h (fst (g st))) (snd (g st))"
  shows "follows M (seq g h) st"
proof -
  from assms(2) obtain K1 where K1: "msgfun M K1"
    "\<And>e. g (st\<lparr>errorString := e\<rparr>) = (fst (g st), (snd (g st))\<lparr>errorString := K1 e\<rparr>)"
    unfolding follows_def by blast
  from assms(3) obtain K2 where K2: "msgfun M K2"
    "\<And>e. h (fst (g st)) ((snd (g st))\<lparr>errorString := e\<rparr>)
          = (fst (h (fst (g st)) (snd (g st))), (snd (h (fst (g st)) (snd (g st))))\<lparr>errorString := K2 e\<rparr>)"
    unfolding follows_def by blast
  have "seq g h (st\<lparr>errorString := e\<rparr>) = (fst (seq g h st), (snd (seq g h st))\<lparr>errorString := K2 (K1 e)\<rparr>)" for e
    by (simp add: seq_def K1(2) K2(2) split: prod.splits)
  with msgfun_comp [OF assms(1) K1(1) K2(1)] show ?thesis
    unfolding follows_def by blast
qed

lemma follows_return: "follows M (\<lambda>st. (b, st)) st"
  unfolding follows_def using msgfun_id by fastforce

lemma follows_default:
  assumes "w \<in> M"
  shows "follows M (\<lambda>st. (b, if errorString st = [] then st\<lparr>errorString := w\<rparr> else st)) st"
proof -
  have "msgfun M (\<lambda>e. if e = [] then w else e)"
    using assms by (rule msgfun_default)
  moreover have "(b, if errorString (st\<lparr>errorString := e\<rparr>) = [] then st\<lparr>errorString := e, errorString := w\<rparr>
                     else st\<lparr>errorString := e\<rparr>)
        = (b, (if errorString st = [] then st\<lparr>errorString := w\<rparr> else st)
                \<lparr>errorString := (if e = [] then w else e)\<rparr>)" for e
    by simp
  ultimately show ?thesis
    unfolding follows_def by (intro exI [of _ "\<lambda>e. if e = [] then w else e"]) simp
qed

lemma follows_cong:
  assumes "\<And>e. g (st\<lparr>errorString := e\<rparr>) = g' (st\<lparr>errorString := e\<rparr>)" and "follows M g' st"
  shows "follows M g st"
proof -
  from assms(1) [of "errorString st"] have "g st = g' st"
    by simp
  with assms show ?thesis
    unfolding follows_def by simp
qed

lemma error_outermost [simp]:
  "(st\<lparr>errorString := e\<rparr>)\<lparr>currentIndex := i\<rparr> = (st\<lparr>currentIndex := i\<rparr>)\<lparr>errorString := e\<rparr>"
  "(st\<lparr>errorString := e\<rparr>)\<lparr>overrun := v\<rparr> = (st\<lparr>overrun := v\<rparr>)\<lparr>errorString := e\<rparr>"
  by simp_all

lemma probe_error [simp]: "probe a (st\<lparr>errorString := e\<rparr>) = (probe a st)\<lparr>errorString := e\<rparr>"
  by (simp add: probe_def)

lemma advance_error [simp]: "advance k (st\<lparr>errorString := e\<rparr>) = (advance k st)\<lparr>errorString := e\<rparr>"
  by (simp add: advance_def)

lemma cur_error [simp]: "cur a (st\<lparr>errorString := e\<rparr>) = cur a st"
  by (simp add: cur_def)

lemma probe_index [simp]: "currentIndex (probe a st) = currentIndex st"
  by (simp add: probe_def)

lemma cur_probe [simp]: "cur a (probe a st) = cur a st"
  by (simp add: cur_def)

lemma follows_isSign: "follows M (isSign a) st"
  unfolding follows_def
  by (intro exI [of _ "\<lambda>e. e"]) (simp add: msgfun_id isSign_def Let_def)

lemma follows_try_sign: "follows M (try_sign a f) st"
  using follows_isSign [of M a st] follows_return [of M False st]
  by (cases "allowSign f") (simp_all add: try_sign_def [abs_def])

lemma isOperator_error:
  "isOperator a (st\<lparr>errorString := e\<rparr>) = (fst (isOperator a st), (snd (isOperator a st))\<lparr>errorString := e\<rparr>)"
  by (simp add: isOperator_def isSign_def Let_def)

lemma follows_try_operator: "follows M (try_operator a f) st"
  unfolding follows_def
  by (intro exI [of _ "\<lambda>e. e"]) (simp add: msgfun_id try_operator_def isOperator_error)


definition number_messages :: "string set" where
  "number_messages = range msg_dot \<union> range msg_exponent"

lemma checkExponentionalForm_error:
  "\<exists>K. msgfun number_messages K \<and>
       (\<forall>e. checkExponentionalForm a (st\<lparr>errorString := e\<rparr>)
            = (fst (checkExponentionalForm a st), (snd (checkExponentionalForm a st))\<lparr>errorString := K e\<rparr>))"
proof (cases "fst (checkExponentionalForm a st)")
  case True
  then have "\<forall>e. checkExponentionalForm a (st\<lparr>errorString := e\<rparr>)
            = (fst (checkExponentionalForm a st), (snd (checkExponentionalForm a st))\<lparr>errorString := e\<rparr>)"
    by (auto simp: checkExponentionalForm_def Let_def split: if_splits)
  then show ?thesis
    using msgfun_id by blast
next
  case False
  then obtain i where "\<forall>e. checkExponentionalForm a (st\<lparr>errorString := e\<rparr>)
            = (fst (checkExponentionalForm a st), (snd (checkExponentionalForm a st))\<lparr>errorString := msg_exponent i\<rparr>)"
    by (auto simp: checkExponentionalForm_def Let_def split: if_splits)
  moreover have "msgfun number_messages (\<lambda>e. msg_exponent i)"
    by (rule msgfun_const) (simp add: number_messages_def)
  ultimately show ?thesis
    by blast
qed

lemma follows_isNumber: "follows number_messages (isNumber a) st"
proof (cases "is_digit (cur a st)")
  case False
  then have "\<forall>e. isNumber a (st\<lparr>errorString := e\<rparr>) = (fst (isNumber a st), (snd (isNumber a st))\<lparr>errorString := e\<rparr>)"
    by (simp add: isNumber_def Let_def)
  then show ?thesis
    unfolding follows_def using msgfun_id by blast
next
  case True
  show ?thesis
  proof (cases "number_loop a (currentIndex st) False")
    case (Inl i)
    with True have "\<forall>e. isNumber a (st\<lparr>errorString := e\<rparr>)
        = (fst (isNumber a st), (snd (isNumber a st))\<lparr>errorString := msg_dot i\<rparr>)"
      by (simp add: isNumber_def Let_def)
    moreover have "msgfun number_messages (\<lambda>e. msg_dot i)"
      by (rule msgfun_const) (simp add: number_messages_def)
    ultimately show ?thesis
      unfolding follows_def by blast
  next
    case (Inr i)
    with True have eq: "isNumber a (st\<lparr>errorString := e\<rparr>)
        = checkExponentionalForm a (((probe a st)\<lparr>currentIndex := i\<rparr>)\<lparr>errorString := e\<rparr>)" for e
      by (simp add: isNumber_def Let_def)
    from True Inr have ref: "isNumber a st
        = checkExponentionalForm a ((probe a st)\<lparr>currentIndex := i\<rparr>)"
      by (simp add: isNumber_def Let_def)
    show ?thesis
      unfolding follows_def
      using checkExponentionalForm_error [of a "(probe a st)\<lparr>currentIndex := i\<rparr>"]
      by (simp add: eq ref)
  qed
qed


definition order_messages :: "string set" where
  "order_messages = insert msg_order number_messages"

lemma order_messages_nonempty: "[] \<notin> order_messages"
  by (auto simp: order_messages_def number_messages_def msg_order_def msg_dot_def msg_exponent_def)

lemma msgfun_mono: "M \<subseteq> M' \<Longrightarrow> msgfun M K \<Longrightarrow> msgfun M' K"
  unfolding msgfun_def by blast

lemma follows_mono: "M \<subseteq> M' \<Longrightarrow> follows M g st \<Longrightarrow> follows M' g st"
  unfolding follows_def using msgfun_mono by blast

lemma follows_probe: "follows M g (probe a st) \<Longrightarrow> follows M (\<lambda>s. g (probe a s)) st"
  unfolding follows_def by simp

lemma follows_advance: "follows M g (advance k st) \<Longrightarrow> follows M (\<lambda>s. g (advance k s)) st"
  unfolding follows_def by simp

definition operand_phase :: "string \<Rightarrow> flags \<Rightarrow> vstate \<Rightarrow> bool \<times> vstate" where
  "operand_phase a f y =
     (if allowOperand f
      then case isNumber a y of (True, st2) \<Rightarrow> (True, st2) | (False, st2) \<Rightarrow> isFunction a st2
      else (False, y))"

lemma operand_phase_seq:
  "operand_phase a f =
     (if allowOperand f
      then seq (isNumber a) (\<lambda>b st2. if b then (True, st2) else isFunction a st2)
      else (\<lambda>y. (False, y)))"
  by (auto simp: fun_eq_iff operand_phase_def seq_def split: prod.splits bool.splits)

definition after_operator :: "string \<Rightarrow> bool \<Rightarrow> flags \<Rightarrow> nat \<Rightarrow> bool \<Rightarrow> vstate \<Rightarrow> bool \<times> vstate" where
  "after_operator a inside f i0 b st4 =
     (if b then
        (if i0 < currentIndex st4
         then order_loop a inside (f\<lparr>allowOperator := False, allowOperand := True\<rparr>) st4
         else (False, st4))
      else (False, if errorString st4 = [] then st4\<lparr>errorString := msg_order\<rparr> else st4))"

definition after_operand :: "string \<Rightarrow> bool \<Rightarrow> flags \<Rightarrow> nat \<Rightarrow> bool \<Rightarrow> vstate \<Rightarrow> bool \<times> vstate" where
  "after_operand a inside f i0 b st3 =
     (if b then
        (if i0 < currentIndex st3
         then order_loop a inside (f\<lparr>allowOperand := False, allowOperator := True\<rparr>) st3
         else (False, st3))
      else seq (try_operator a f) (after_operator a inside f i0) st3)"

definition after_sign :: "string \<Rightarrow> bool \<Rightarrow> flags \<Rightarrow> nat \<Rightarrow> bool \<Rightarrow> vstate \<Rightarrow> bool \<times> vstate" where
  "after_sign a inside f i0 b st1 =
     (if b then order_loop a inside (f\<lparr>allowSign := False, allowOperand := True\<rparr>) st1
      else seq (operand_phase a f) (after_operand a inside f i0) st1)"

lemma order_loop_seq:
  "order_loop a inside f st0 =
     (let st = probe a st0; c = cur a st in
      if c = NUL then (\<not> allowOperand f, st)
      else if c = CHR ''('' \<or> c = CHR '')'' then
        (if inside \<and> p_counter (paren_flags inside c f) = 0
         then (\<not> allowOperand f, st)
         else order_loop a inside (paren_flags inside c f) (advance 1 st))
      else seq (try_sign a f) (after_sign a inside f (currentIndex st0)) st)"
  by (subst order_loop.simps)
     (simp add: Let_def seq_def after_sign_def after_operand_def after_operator_def operand_phase_def
           split: prod.splits bool.splits)


lemma follows_close:
  "follows M (\<lambda>st1. if cur a st1 = CHR '')'' then (True, advance 1 st1) else (False, st1)) st"
  unfolding follows_def
  by (intro exI [of _ "\<lambda>e. e"]) (simp add: msgfun_id)

definition after_argument :: "string \<Rightarrow> bool \<Rightarrow> vstate \<Rightarrow> bool \<times> vstate" where
  "after_argument a b st1 =
     (if b then (if cur a st1 = CHR '')'' then (True, advance 1 st1) else (False, st1))
      else (False, st1))"

lemma isFunction_seq:
  "isFunction a st0 =
     (let st = probe a st0 in
      case function_name_length a (currentIndex st) of
        None \<Rightarrow> (False, st)
      | Some k \<Rightarrow>
          (if cur a (advance k st) = CHR ''(''
           then seq (order_loop a True
                       \<lparr>allowSign = True, allowOperand = True, allowOperator = False, p_counter = 1\<rparr>)
                    (after_argument a) (advance (k + 1) st)
           else (False, advance (k + 1) st)))"
  by (subst isFunction.simps)
     (simp add: Let_def seq_def after_argument_def split: prod.splits bool.splits option.splits)

lemma follows_after_argument: "follows M (after_argument a b) st"
  unfolding follows_def
  by (intro exI [of _ "\<lambda>e. e"]) (simp add: msgfun_id after_argument_def)

text \<open>The order check follows the rule, with the messages of the number scanner and
  its own. The proof goes along the recursion of the two functions.\<close>

lemma follows_order_loop: "follows order_messages (order_loop a inside f) st0"
  and follows_isFunction: "follows order_messages (isFunction a) st0"
proof (induction a inside f st0 and a st0 rule: order_loop_isFunction.induct)
  case (1 a inside f st0)
  note ne = order_messages_nonempty
  define st where "st = probe a st0"
  define c where "c = cur a st"
  define i0 where "i0 = currentIndex st0"
  show ?case
  proof (cases "c = NUL \<or> ((c = CHR ''('' \<or> c = CHR '')'') \<and> inside \<and> p_counter (paren_flags inside c f) = 0)")
    case True
    then have "order_loop a inside f (st0\<lparr>errorString := e\<rparr>) = (\<not> allowOperand f, probe a (st0\<lparr>errorString := e\<rparr>))" for e
      by (subst order_loop_seq) (auto simp: Let_def c_def st_def)
    then show ?thesis
      by (rule follows_cong) (intro follows_probe follows_return)
  next
    case False
    show ?thesis
    proof (cases "c = CHR ''('' \<or> c = CHR '')''")
      case True
      with False have eq: "order_loop a inside f (st0\<lparr>errorString := e\<rparr>)
          = order_loop a inside (paren_flags inside c f) (advance 1 (probe a (st0\<lparr>errorString := e\<rparr>)))" for e
        by (subst order_loop_seq) (auto simp: Let_def c_def st_def)
      from False True have "follows order_messages (order_loop a inside (paren_flags inside c f)) (advance 1 st)"
        by (intro "1.IH"(1)) (auto simp: c_def st_def)
      then have "follows order_messages
          (\<lambda>s. order_loop a inside (paren_flags inside c f) (advance 1 (probe a s))) st0"
        unfolding st_def by (intro follows_probe follows_advance)
      with eq show ?thesis
        by (rule follows_cong)
    next
      case other: False
      with False have eq: "order_loop a inside f (st0\<lparr>errorString := e\<rparr>)
          = seq (try_sign a f) (after_sign a inside f i0) (probe a (st0\<lparr>errorString := e\<rparr>))" for e
        by (subst order_loop_seq) (auto simp: Let_def c_def st_def i0_def)
      from False other have c: "c \<noteq> NUL" "\<not> (c = CHR ''('' \<or> c = CHR '')'')"
        by auto
      obtain b1 st1 where sign: "try_sign a f st = (b1, st1)"
        by (cases "try_sign a f st")
      have "follows order_messages (after_sign a inside f i0 b1) st1"
      proof (cases b1)
        case True
        have "follows order_messages (order_loop a inside (f\<lparr>allowSign := False, allowOperand := True\<rparr>)) st1"
          using c sign True
          by (intro "1.IH"(2) [where x = st and xa = c and xaa = b1]) (simp_all add: c_def st_def)
        with True show ?thesis
          by (simp add: after_sign_def [abs_def])
      next
        case b1: False
        obtain b3 st3 where operand: "operand_phase a f st1 = (b3, st3)"
          by (cases "operand_phase a f st1")
        have phase: "follows order_messages (operand_phase a f) st1"
        proof (cases "allowOperand f")
          case True
          obtain bn st2 where number: "isNumber a st1 = (bn, st2)"
            by (cases "isNumber a st1")
          have "follows order_messages (\<lambda>st2. if bn then (True, st2) else isFunction a st2) st2"
          proof (cases bn)
            case True
            then show ?thesis
              by (simp add: follows_return)
          next
            case bn: False
            have "follows order_messages (isFunction a) st2"
              using c sign b1 True number bn
              by (intro "1.IH"(3) [where x = st and xa = c and xaa = b1 and y = st1 and xb = bn])
                 (simp_all add: c_def st_def)
            with bn show ?thesis
              by simp
          qed
          moreover have "follows order_messages (isNumber a) st1"
            by (rule follows_mono [OF _ follows_isNumber]) (auto simp: order_messages_def)
          ultimately have "follows order_messages
              (seq (isNumber a) (\<lambda>b st2. if b then (True, st2) else isFunction a st2)) st1"
            using number by (intro follows_seq ne) simp_all
          with True show ?thesis
            by (simp add: operand_phase_seq)
        next
          case False
          then show ?thesis
            by (simp add: operand_phase_seq follows_return)
        qed
        have "follows order_messages (after_operand a inside f i0 b3) st3"
        proof (cases b3)
          case True
          show ?thesis
          proof (cases "i0 < currentIndex st3")
            case guard: True
            have "follows order_messages
                (order_loop a inside (f\<lparr>allowOperand := False, allowOperator := True\<rparr>)) st3"
              using c sign b1 True guard operand [unfolded operand_phase_def, symmetric]
              by (intro "1.IH"(4) [where x = st and xa = c and xaa = b1 and y = st1 and xb = b3])
                 (simp_all add: c_def st_def i0_def)
            moreover have "after_operand a inside f i0 b3 (st3\<lparr>errorString := e\<rparr>)
                = order_loop a inside (f\<lparr>allowOperand := False, allowOperator := True\<rparr>)
                    (st3\<lparr>errorString := e\<rparr>)" for e
              using True guard by (simp add: after_operand_def)
            ultimately show ?thesis
              by (intro follows_cong [where g = "after_operand a inside f i0 b3"])
          next
            case False
            with True have "after_operand a inside f i0 b3 (st3\<lparr>errorString := e\<rparr>)
                = (False, st3\<lparr>errorString := e\<rparr>)" for e
              by (simp add: after_operand_def)
            then show ?thesis
              by (rule follows_cong) (rule follows_return)
          qed
        next
          case b3: False
          obtain b4 st4 where operator: "try_operator a f st3 = (b4, st4)"
            by (cases "try_operator a f st3")
          have "follows order_messages (after_operator a inside f i0 b4) st4"
          proof (cases b4)
            case True
            show ?thesis
            proof (cases "i0 < currentIndex st4")
              case guard: True
              have "follows order_messages
                  (order_loop a inside (f\<lparr>allowOperator := False, allowOperand := True\<rparr>)) st4"
                using c sign b1 b3 True guard operator operand [unfolded operand_phase_def, symmetric]
                by (intro "1.IH"(5) [where x = st and xa = c and xaa = b1 and y = st1 and xb = b3
                        and ya = st3 and xc = b4])
                   (simp_all add: c_def st_def i0_def)
              moreover have "after_operator a inside f i0 b4 (st4\<lparr>errorString := e\<rparr>)
                  = order_loop a inside (f\<lparr>allowOperator := False, allowOperand := True\<rparr>)
                      (st4\<lparr>errorString := e\<rparr>)" for e
                using True guard by (simp add: after_operator_def)
              ultimately show ?thesis
                by (intro follows_cong [where g = "after_operator a inside f i0 b4"])
            next
              case False
              with True have "after_operator a inside f i0 b4 (st4\<lparr>errorString := e\<rparr>)
                  = (False, st4\<lparr>errorString := e\<rparr>)" for e
                by (simp add: after_operator_def)
              then show ?thesis
                by (rule follows_cong) (rule follows_return)
            qed
          next
            case False
            have "msg_order \<in> order_messages"
              by (simp add: order_messages_def)
            from follows_default [OF this] False show ?thesis
              by (simp add: after_operator_def [abs_def])
          qed
          with operator have "follows order_messages
              (seq (try_operator a f) (after_operator a inside f i0)) st3"
            by (intro follows_seq ne follows_try_operator) simp
          with b3 show ?thesis
            by (simp add: after_operand_def [abs_def])
        qed
        with operand phase have "follows order_messages
            (seq (operand_phase a f) (after_operand a inside f i0)) st1"
          by (intro follows_seq ne) simp_all
        with b1 show ?thesis
          by (simp add: after_sign_def [abs_def])
      qed
      with sign have "follows order_messages (seq (try_sign a f) (after_sign a inside f i0)) st"
        by (intro follows_seq ne follows_try_sign) simp
      then have "follows order_messages
          (\<lambda>s. seq (try_sign a f) (after_sign a inside f i0) (probe a s)) st0"
        unfolding st_def by (intro follows_probe)
      with eq show ?thesis
        by (rule follows_cong)
    qed
  qed
next
  case (2 a st0)
  note ne = order_messages_nonempty
  define st where "st = probe a st0"
  show ?case
  proof (cases "function_name_length a (currentIndex st0)")
    case None
    then have "isFunction a (st0\<lparr>errorString := e\<rparr>) = (False, probe a (st0\<lparr>errorString := e\<rparr>))" for e
      by (subst isFunction_seq) (simp add: Let_def)
    then show ?thesis
      by (rule follows_cong) (intro follows_probe follows_return)
  next
    case (Some k)
    show ?thesis
    proof (cases "cur a (advance k st) = CHR ''(''")
      case False
      with Some have "isFunction a (st0\<lparr>errorString := e\<rparr>)
          = (False, advance (k + 1) (probe a (st0\<lparr>errorString := e\<rparr>)))" for e
        by (subst isFunction_seq) (simp add: Let_def st_def)
      moreover have "follows order_messages (\<lambda>s. (False, advance (k + 1) (probe a s))) st0"
        by (intro follows_probe follows_advance [where g = "Pair False"] follows_return)
      ultimately show ?thesis
        by (rule follows_cong)
    next
      case True
      let ?init = "\<lparr>allowSign = True, allowOperand = True, allowOperator = False, p_counter = 1\<rparr>"
      from Some True have eq: "isFunction a (st0\<lparr>errorString := e\<rparr>)
          = seq (order_loop a True ?init) (after_argument a)
              (advance (k + 1) (probe a (st0\<lparr>errorString := e\<rparr>)))" for e
        by (subst isFunction_seq) (simp add: Let_def st_def)
      have "follows order_messages (order_loop a True ?init) (advance (k + 1) st)"
        using Some True by (intro "2.IH") (simp_all add: st_def)
      then have "follows order_messages (seq (order_loop a True ?init) (after_argument a))
          (advance (k + 1) st)"
        by (intro follows_seq ne follows_after_argument)
      then have "follows order_messages
          (\<lambda>s. seq (order_loop a True ?init) (after_argument a) (advance (k + 1) (probe a s))) st0"
        unfolding st_def by (intro follows_probe follows_advance)
      with eq show ?thesis
        by (rule follows_cong)
    qed
  qed
qed

text \<open>The messages of a failed validation, and those of a failed call.\<close>

definition validation_messages :: "string set" where
  "validation_messages =
     order_messages \<union> {msg_empty, msg_parentheses} \<union> range msg_negative_power
       \<union> range msg_missing_argument"

definition failure_messages :: "string set" where
  "failure_messages = insert msg_incorrect validation_messages"

lemma order_messages_subset: "order_messages \<subseteq> validation_messages"
  unfolding validation_messages_def by blast

lemma validation_messages_subset: "validation_messages \<subseteq> failure_messages"
  unfolding failure_messages_def by blast

lemma validation_messages_nonempty: "[] \<notin> validation_messages"
  using order_messages_nonempty
  by (auto simp: validation_messages_def msg_empty_def msg_parentheses_def msg_negative_power_def
      msg_missing_argument_def)

lemma failure_messages_nonempty: "[] \<notin> failure_messages"
  using validation_messages_nonempty by (auto simp: failure_messages_def msg_incorrect_def)

lemma checkCorrectParentheses_error:
  "(\<exists>f. \<forall>e. checkCorrectParentheses L a e = Inl f)
   \<or> (\<exists>b K. msgfun validation_messages K \<and>
       (\<forall>e. checkCorrectParentheses L a e = Inr (b, K e))
       \<and> (b \<longrightarrow> K = (\<lambda>e. e))
       \<and> (\<not> b \<longrightarrow> msgfun validation_messages (\<lambda>e. if K e = [] then msg_parentheses else K e)))"
proof (cases "power_loop (QString_of L (cstr a)) 0 (length (QString_of L (cstr a)))")
  case (Some i)
  have "msgfun validation_messages (\<lambda>e. msg_negative_power i)"
    by (rule msgfun_const) (simp add: validation_messages_def)
  moreover have "msg_negative_power i \<noteq> []"
    by (simp add: msg_negative_power_def)
  ultimately show ?thesis
    using Some
    by (intro disjI2 exI [of _ False] exI [of _ "\<lambda>e. msg_negative_power i"])
       (simp add: checkCorrectParentheses_def)
next
  case None
  show ?thesis
  proof (cases "count_loop a 0 (length (QString_of L (cstr a))) 0")
    case (Inl f)
    with None have "\<forall>e. checkCorrectParentheses L a e = Inl f"
      by (simp add: checkCorrectParentheses_def)
    then show ?thesis
      by blast
  next
    case (Inr c)
    show ?thesis
    proof (cases c)
      case (Inl i)
      have "msgfun validation_messages (\<lambda>e. msg_missing_argument i)"
        by (rule msgfun_const) (simp add: validation_messages_def)
      moreover have "msg_missing_argument i \<noteq> []"
        by (simp add: msg_missing_argument_def)
      ultimately show ?thesis
        using None Inr Inl
        by (intro disjI2 exI [of _ False] exI [of _ "\<lambda>e. msg_missing_argument i"])
           (simp add: checkCorrectParentheses_def)
    next
      case (Inr n)
      have "msgfun validation_messages (\<lambda>e. if e = [] then msg_parentheses else e)"
        by (rule msgfun_default) (simp add: validation_messages_def)
      with None \<open>count_loop a 0 (length (QString_of L (cstr a))) 0 = Inr c\<close> Inr show ?thesis
        by (intro disjI2 exI [of _ "n = 0"] exI [of _ "\<lambda>e. e"])
           (simp add: checkCorrectParentheses_def msgfun_id)
    qed
  qed
qed

lemma follows_run:
  assumes "follows M g st"
  shows "\<exists>b t K. msgfun M K \<and> (\<forall>e. g (st\<lparr>errorString := e\<rparr>) = (b, t\<lparr>errorString := K e\<rparr>))"
proof -
  from assms obtain K where "msgfun M K"
    and "\<forall>e. g (st\<lparr>errorString := e\<rparr>) = (fst (g st), (snd (g st))\<lparr>errorString := K e\<rparr>)"
    unfolding follows_def by (elim exE conjE)
  then show ?thesis
    by (intro exI [of _ "fst (g st)"] exI [of _ "snd (g st)"] exI [of _ K] conjI)
qed

lemma checkCorrectInput_error:
  "(\<exists>f. \<forall>e. checkCorrectInput L a e = Inl f)
   \<or> (\<exists>ok a' K. msgfun validation_messages K \<and> (\<forall>e. checkCorrectInput L a e = Inr (ok, a', K e)))"
proof (cases "removeSpaces a")
  case (Inl f)
  then have "\<forall>e. checkCorrectInput L a e = Inl f"
    by (simp add: checkCorrectInput_def)
  then show ?thesis
    by blast
next
  case (Inr a')
  show ?thesis
  proof (cases "byte_at a' 0 = NUL")
    case True
    have "msgfun validation_messages (\<lambda>e. msg_empty)"
      by (rule msgfun_const) (simp add: validation_messages_def)
    moreover from Inr True have "\<forall>e. checkCorrectInput L a e = Inr (False, a', msg_empty)"
      by (simp add: checkCorrectInput_def)
    ultimately show ?thesis
      by blast
  next
    case False
    from checkCorrectParentheses_error [of L a']
    consider f where "\<forall>e. checkCorrectParentheses L a' e = Inl f"
      | b K where "msgfun validation_messages K"
        "\<forall>e. checkCorrectParentheses L a' e = Inr (b, K e)"
        "b \<longrightarrow> K = (\<lambda>e. e)"
        "\<not> b \<longrightarrow> msgfun validation_messages (\<lambda>e. if K e = [] then msg_parentheses else K e)"
      by blast
    then show ?thesis
    proof cases
      case 1
      with Inr False have "\<forall>e. checkCorrectInput L a e = Inl f"
        by (simp add: checkCorrectInput_def)
      then show ?thesis
        by blast
    next
      case K: 2
      show ?thesis
      proof (cases b)
        case bad: False
        with Inr False K(2) have "\<forall>e. checkCorrectInput L a e
            = Inr (False, a', if K e = [] then msg_parentheses else K e)"
          by (simp add: checkCorrectInput_def)
        with K(4) bad show ?thesis
          by blast
      next
        case True
        let ?st = "\<lparr>currentIndex = 0, errorString = [], overrun = False\<rparr>"
        let ?run = "checkOperatorAndOperandsOrder a' False"
        from K(2,3) True have par: "checkCorrectParentheses L a' e = Inr (True, e)" for e
          by simp
        have "follows order_messages ?run ?st"
          unfolding checkOperatorAndOperandsOrder_def [abs_def] by (rule follows_order_loop)
        from follows_run [OF this] obtain ok t K2 where K2: "msgfun order_messages K2"
          and "\<forall>e. ?run (?st\<lparr>errorString := e\<rparr>) = (ok, t\<lparr>errorString := K2 e\<rparr>)"
          by (elim exE conjE)
        then have run: "?run \<lparr>currentIndex = 0, errorString = e, overrun = False\<rparr> = (ok, t\<lparr>errorString := K2 e\<rparr>)" for e
          by simp
        from K2(1) have m: "msgfun validation_messages K2"
          by (rule msgfun_mono [OF order_messages_subset])
        from Inr False par run have eq: "checkCorrectInput L a e =
            (if overrun t then Inl BufferOverrun else Inr (ok, a', K2 e))" for e
          by (simp add: checkCorrectInput_def)
        show ?thesis
        proof (cases "overrun t")
          case True
          with eq have "\<forall>e. checkCorrectInput L a e = Inl BufferOverrun"
            by simp
          then show ?thesis
            by blast
        next
          case False
          with eq have "\<forall>e. checkCorrectInput L a e = Inr (ok, a', K2 e)"
            by simp
          with m show ?thesis
            by blast
        qed
      qed
    qed
  qed
qed

text \<open>The same for the whole call: the returned value and a fault never depend on the
  error string, and the message is such a function of it.\<close>

definition all_messages :: "string set" where
  "all_messages = failure_messages \<union> {msg_success, msg_nan}"

lemma failure_messages_subset: "failure_messages \<subseteq> all_messages"
  unfolding all_messages_def by blast

lemma all_messages_nonempty: "[] \<notin> all_messages"
  using failure_messages_nonempty by (auto simp: all_messages_def msg_success_def msg_nan_def)

lemma parseString_error:
  "(\<exists>f. \<forall>e. parseString L m s e = Inl f)
   \<or> (\<exists>r K. msgfun all_messages K \<and> (\<forall>e. parseString L m s e = Inr (r, K e)))"
proof -
  from checkCorrectInput_error [of L "strncpy_input m s"]
  consider f where "\<forall>e. setInput L m s e = Inl f"
    | ok a' K where "msgfun validation_messages K" "\<forall>e. setInput L m s e = Inr (ok, a', K e)"
    unfolding setInput_def by blast
  then show ?thesis
  proof cases
    case 1
    then have "\<forall>e. parseString L m s e = Inl f"
      by (simp add: parseString_def)
    then show ?thesis
      by blast
  next
    case 2
    show ?thesis
    proof (cases ok)
      case False
      have "msgfun failure_messages (\<lambda>e. if K e = [] then msg_incorrect else K e)"
      proof (rule msgfun_comp [where ?K1.0 = K and ?K2.0 = "\<lambda>e. if e = [] then msg_incorrect else e"])
        show "[] \<notin> failure_messages"
          by (rule failure_messages_nonempty)
        show "msgfun failure_messages K"
          using 2(1) by (rule msgfun_mono [OF validation_messages_subset])
        show "msgfun failure_messages (\<lambda>e. if e = [] then msg_incorrect else e)"
          by (rule msgfun_default) (simp add: failure_messages_def)
      qed
      then have "msgfun all_messages (\<lambda>e. if K e = [] then msg_incorrect else K e)"
        by (rule msgfun_mono [OF failure_messages_subset])
      moreover from False 2(2) have "\<forall>e. parseString L m s e
          = Inr (d_NAN L, if K e = [] then msg_incorrect else K e)"
        by (simp add: parseString_def)
      ultimately show ?thesis
        by blast
    next
      case True
      show ?thesis
      proof (cases "requestCalculations L a'")
        case (Inl f)
        with True 2(2) have "\<forall>e. parseString L m s e = Inl f"
          by (simp add: parseString_def)
        then show ?thesis
          by blast
      next
        case (Inr r)
        have c: "msgfun all_messages (\<lambda>e. msg_nan)" "msgfun all_messages (\<lambda>e. msg_success)"
          by (rule msgfun_const, simp add: all_messages_def)+
        show ?thesis
        proof (cases "d_isnan L r")
          case nan: True
          with True 2(2) Inr have "\<forall>e. parseString L m s e = Inr (d_NAN L, msg_nan)"
            by (simp add: parseString_def)
          with c(1) show ?thesis
            by blast
        next
          case False
          with True 2(2) Inr have "\<forall>e. parseString L m s e = Inr (r, msg_success)"
            by (simp add: parseString_def)
          with c(2) show ?thesis
            by blast
        qed
      qed
    qed
  qed
qed

section \<open>The claims about the result and the message of a call\<close>













text \<open>
  The value that a call returns, and the fault it runs into, never depend on the error
  string it starts with; and a second call that starts with the error string the first
  one left returns the same pair.
\<close>

lemma parseString_value_independent:
  "map_sum (\<lambda>f. f) fst (parseString L m s e) = map_sum (\<lambda>f. f) fst (parseString L m s e')"
  using parseString_error [of L m s] by auto

lemma parseString_twice:
  assumes "parseString L m s e = Inr (r, msg)"
  shows "parseString L m s msg = Inr (r, msg)"
proof -
  from parseString_error [of L m s] assms
  obtain r' K where K: "msgfun all_messages K" and run: "\<forall>e. parseString L m s e = Inr (r', K e)"
    by auto
  from run assms have "r' = r" "K e = msg"
    by simp_all
  with msgfun_idem [OF all_messages_nonempty K, of e] run show ?thesis
    by simp
qed

text \<open>
  Claim C8 fails on the code. The message of a call depends on what the caller's error
  string holds when the call starts: \<^verbatim>\<open>checkCorrectInput\<close>, \<^verbatim>\<open>checkOperatorAndOperandsOrder\<close>
  and \<^verbatim>\<open>parseString\<close> store their general messages only in an empty string, and nothing
  empties the string first. After a failed call on \<^verbatim>\<open>1+\<close>, a call on \<^verbatim>\<open>(1+2\<close> with the
  same string returns the message of the first call; with an empty string it returns
  the message for mismatched parentheses.
\<close>

theorem stale_error_string_returned:
  "parseString L NUL ''1+'' [] = Inr (d_NAN L, ''Error: Incorrect expression input!'')
   \<and> parseString L NUL ''(1+2'' ''Error: Incorrect expression input!''
       = Inr (d_NAN L, ''Error: Incorrect expression input!'')
   \<and> parseString L NUL ''(1+2'' []
       = Inr (d_NAN L, ''Error: Mismatched parentheses! Possibly a missing closing parenthesis'')"
proof -
  have a: "checkCorrectInput L (''1+'' @ NUL # r) [] = Inr (False, ''1+'' @ NUL # r, [])" for r
    unfolding checkCorrectInput_def by (simp add: val_simps)
  have b: "checkCorrectInput L (''(1+2'' @ NUL # r) e
            = Inr (False, ''(1+2'' @ NUL # r, if e = [] then msg_parentheses else e)" for r e
    unfolding checkCorrectInput_def by (simp add: val_simps)
  show ?thesis
    by (simp add: parseString_def setInput_def strncpy_input_literal a [simplified] b [simplified]
        msg_incorrect_def msg_parentheses_def)
qed

section \<open>The loop always moves on\<close>

text \<open>\<open>moves_on g st\<close>: the scanner \<open>g\<close>, started in \<open>st\<close>, does not leave
  \<^verbatim>\<open>currentIndex\<close> before the place where it started.\<close>

lemma is_digit_not_dot: "is_digit c \<Longrightarrow> c \<noteq> CHR ''.''"
  by (auto simp: is_digit_def)

lemma isNumber_True:
  assumes "isNumber a st = (True, st')"
  shows "currentIndex st < currentIndex st'"
proof -
  from assms have digit: "is_digit (cur a st)"
    by (auto simp: isNumber_def Let_def split: if_splits)
  then have first: "number_loop a (currentIndex st) False = number_loop a (currentIndex st + 1) False"
    by (subst number_loop.simps) (auto simp: cur_def dest: is_digit_not_dot)
  from assms digit obtain k where k: "number_loop a (currentIndex st) False = Inr k"
    and form: "checkExponentionalForm a ((probe a st)\<lparr>currentIndex := k\<rparr>) = (True, st')"
    by (auto simp: isNumber_def Let_def split: sum.splits)
  from k first number_loop_index [where a = a and i = "currentIndex st + 1" and d = False] have "currentIndex st < k"
    by simp
  with checkExponentionalForm_index [OF form] show ?thesis
    by simp
qed

definition moves_on :: "(vstate \<Rightarrow> bool \<times> vstate) \<Rightarrow> vstate \<Rightarrow> bool" where
  "moves_on g st = (currentIndex st \<le> currentIndex (snd (g st)))"

lemma moves_on_seq:
  assumes "moves_on g st" and "moves_on (h (fst (g st))) (snd (g st))"
  shows "moves_on (seq g h) st"
  using assms by (auto simp: moves_on_def seq_def split: prod.splits)

lemma moves_on_try_sign: "moves_on (try_sign a f) st"
  using try_sign_index [of a f st] by (cases "try_sign a f st") (auto simp: moves_on_def)

lemma moves_on_try_operator: "moves_on (try_operator a f) st"
  using isOperator_index [of a st]
  by (cases "isOperator a st") (auto simp: moves_on_def try_operator_def)

lemma moves_on_isNumber: "moves_on (isNumber a) st"
  using isNumber_index [of a st] by (cases "isNumber a st") (auto simp: moves_on_def)

lemma moves_on_order_loop: "moves_on (order_loop a inside f) st0"
  and moves_on_isFunction:
    "moves_on (isFunction a) st0
     \<and> (fst (isFunction a st0) \<longrightarrow> currentIndex st0 < currentIndex (snd (isFunction a st0)))"
proof (induction a inside f st0 and a st0 rule: order_loop_isFunction.induct)
  case (1 a inside f st0)
  define st where "st = probe a st0"
  define c where "c = cur a st"
  define i0 where "i0 = currentIndex st0"
  show ?case
  proof (cases "c = NUL \<or> ((c = CHR ''('' \<or> c = CHR '')'') \<and> inside \<and> p_counter (paren_flags inside c f) = 0)")
    case True
    then have "order_loop a inside f st0 = (\<not> allowOperand f, st)"
      by (subst order_loop_seq) (auto simp: Let_def c_def st_def)
    then show ?thesis
      by (simp add: moves_on_def st_def)
  next
    case False
    show ?thesis
    proof (cases "c = CHR ''('' \<or> c = CHR '')''")
      case True
      with False have eq: "order_loop a inside f st0
          = order_loop a inside (paren_flags inside c f) (advance 1 st)"
        by (subst order_loop_seq) (auto simp: Let_def c_def st_def)
      from False True have "moves_on (order_loop a inside (paren_flags inside c f)) (advance 1 st)"
        by (intro "1.IH"(1)) (auto simp: c_def st_def)
      with eq show ?thesis
        by (simp add: moves_on_def st_def advance_def)
    next
      case other: False
      with False have eq: "order_loop a inside f st0
          = seq (try_sign a f) (after_sign a inside f i0) st"
        by (subst order_loop_seq) (auto simp: Let_def c_def st_def i0_def)
      from False other have c: "c \<noteq> NUL" "\<not> (c = CHR ''('' \<or> c = CHR '')'')"
        by auto
      obtain b1 st1 where sign: "try_sign a f st = (b1, st1)"
        by (cases "try_sign a f st")
      have "moves_on (after_sign a inside f i0 b1) st1"
      proof (cases b1)
        case True
        have "moves_on (order_loop a inside (f\<lparr>allowSign := False, allowOperand := True\<rparr>)) st1"
          using c sign True
          by (intro "1.IH"(2) [where x = st and xa = c and xaa = b1]) (simp_all add: c_def st_def)
        with True show ?thesis
          by (simp add: after_sign_def [abs_def])
      next
        case b1: False
        obtain b3 st3 where operand: "operand_phase a f st1 = (b3, st3)"
          by (cases "operand_phase a f st1")
        have phase: "moves_on (operand_phase a f) st1"
        proof (cases "allowOperand f")
          case True
          obtain bn st2 where number: "isNumber a st1 = (bn, st2)"
            by (cases "isNumber a st1")
          have "moves_on (\<lambda>st2. if bn then (True, st2) else isFunction a st2) st2"
          proof (cases bn)
            case True
            then show ?thesis
              by (simp add: moves_on_def)
          next
            case bn: False
            have "moves_on (isFunction a) st2"
              using c sign b1 True number bn
                "1.IH"(3) [where x = st and xa = c and xaa = b1 and y = st1 and xb = bn and ya = st2]
              by (simp add: c_def st_def)
            with bn show ?thesis
              by simp
          qed
          with number have "moves_on
              (seq (isNumber a) (\<lambda>b st2. if b then (True, st2) else isFunction a st2)) st1"
            by (intro moves_on_seq moves_on_isNumber) simp
          with True show ?thesis
            by (simp add: operand_phase_seq)
        next
          case False
          then show ?thesis
            by (simp add: operand_phase_seq moves_on_def)
        qed
        have "moves_on (after_operand a inside f i0 b3) st3"
        proof (cases b3)
          case True
          show ?thesis
          proof (cases "i0 < currentIndex st3")
            case guard: True
            have "moves_on (order_loop a inside (f\<lparr>allowOperand := False, allowOperator := True\<rparr>)) st3"
              using c sign b1 True guard operand [unfolded operand_phase_def, symmetric]
              by (intro "1.IH"(4) [where x = st and xa = c and xaa = b1 and y = st1 and xb = b3])
                 (simp_all add: c_def st_def i0_def)
            with True guard show ?thesis
              by (simp add: after_operand_def moves_on_def)
          next
            case False
            with True show ?thesis
              by (simp add: after_operand_def moves_on_def)
          qed
        next
          case b3: False
          obtain b4 st4 where operator: "try_operator a f st3 = (b4, st4)"
            by (cases "try_operator a f st3")
          have "moves_on (after_operator a inside f i0 b4) st4"
          proof (cases b4)
            case True
            show ?thesis
            proof (cases "i0 < currentIndex st4")
              case guard: True
              have "moves_on (order_loop a inside (f\<lparr>allowOperator := False, allowOperand := True\<rparr>)) st4"
                using c sign b1 b3 True guard operator operand [unfolded operand_phase_def, symmetric]
                by (intro "1.IH"(5) [where x = st and xa = c and xaa = b1 and y = st1 and xb = b3
                        and ya = st3 and xc = b4])
                   (simp_all add: c_def st_def i0_def)
              with True guard show ?thesis
                by (simp add: after_operator_def moves_on_def)
            next
              case False
              with True show ?thesis
                by (simp add: after_operator_def moves_on_def)
            qed
          next
            case False
            then show ?thesis
              by (simp add: after_operator_def moves_on_def)
          qed
          with operator have "moves_on (seq (try_operator a f) (after_operator a inside f i0)) st3"
            by (intro moves_on_seq moves_on_try_operator) simp
          with b3 show ?thesis
            by (simp add: after_operand_def [abs_def])
        qed
        with operand phase have "moves_on (seq (operand_phase a f) (after_operand a inside f i0)) st1"
          by (intro moves_on_seq) simp_all
        with b1 show ?thesis
          by (simp add: after_sign_def [abs_def])
      qed
      with sign have "moves_on (seq (try_sign a f) (after_sign a inside f i0)) st"
        by (intro moves_on_seq moves_on_try_sign) simp
      with eq show ?thesis
        by (simp add: moves_on_def st_def)
    qed
  qed
next
  case (2 a st0)
  define st where "st = probe a st0"
  show ?case
  proof (cases "function_name_length a (currentIndex st0)")
    case None
    then have "isFunction a st0 = (False, st)"
      by (subst isFunction_seq) (simp add: Let_def st_def)
    then show ?thesis
      by (simp add: moves_on_def st_def)
  next
    case (Some k)
    show ?thesis
    proof (cases "cur a (advance k st) = CHR ''(''")
      case False
      with Some have "isFunction a st0 = (False, advance (k + 1) st)"
        by (subst isFunction_seq) (simp add: Let_def st_def)
      then show ?thesis
        by (simp add: moves_on_def st_def advance_def)
    next
      case True
      let ?init = "\<lparr>allowSign = True, allowOperand = True, allowOperator = False, p_counter = 1\<rparr>"
      from Some True have eq: "isFunction a st0
          = seq (order_loop a True ?init) (after_argument a) (advance (k + 1) st)"
        by (subst isFunction_seq) (simp add: Let_def st_def)
      have "moves_on (order_loop a True ?init) (advance (k + 1) st)"
        using Some True by (intro "2.IH") (simp_all add: st_def)
      then have "currentIndex st0 + k + 1 \<le> currentIndex (snd (order_loop a True ?init (advance (k + 1) st)))"
        by (simp add: moves_on_def st_def advance_def)
      with eq show ?thesis
        by (auto simp: moves_on_def seq_def after_argument_def advance_def split: prod.splits)
    qed
  qed
qed

lemma try_sign_False: "try_sign a f st = (False, st') \<Longrightarrow> currentIndex st' = currentIndex st"
  by (auto simp: try_sign_def isSign_def Let_def advance_def split: if_splits)

lemma try_operator_True:
  "try_operator a f st = (True, st') \<Longrightarrow> currentIndex st < currentIndex st'"
  by (auto simp: try_operator_def isOperator_def isSign_def Let_def advance_def
      split: if_splits prod.splits bool.splits)

lemma operand_phase_index:
  assumes "operand_phase a f st = (b, st')"
  shows "currentIndex st \<le> currentIndex st' \<and> (b \<longrightarrow> currentIndex st < currentIndex st')"
proof (cases "allowOperand f")
  case False
  with assms show ?thesis
    by (simp add: operand_phase_def)
next
  case True
  obtain bn st2 where number: "isNumber a st = (bn, st2)"
    by (cases "isNumber a st")
  show ?thesis
  proof (cases bn)
    case yes: True
    with True number assms isNumber_True [of a st st2] show ?thesis
      by (simp add: operand_phase_def)
  next
    case no: False
    with True number assms have "isFunction a st2 = (b, st')"
      by (simp add: operand_phase_def)
    with moves_on_isFunction [of a st2] isNumber_index [OF number] show ?thesis
      by (auto simp: moves_on_def)
  qed
qed

text \<open>The two tests that the model adds to the loop always hold: an operand that is
  accepted, and an operator that is accepted after the operand scanners have failed,
  leave \<^verbatim>\<open>currentIndex\<close> behind the place where the iteration started.\<close>

lemma order_loop_progress:
  assumes "try_sign a f (probe a st0) = (False, st1)"
  shows "(operand_phase a f st1 = (True, st3) \<longrightarrow> currentIndex st0 < currentIndex st3)
       \<and> (operand_phase a f st1 = (False, st3) \<and> try_operator a f st3 = (True, st4)
            \<longrightarrow> currentIndex st0 < currentIndex st4)"
  using try_sign_False [OF assms] operand_phase_index [of a f st1 True st3]
    operand_phase_index [of a f st1 False st3] try_operator_True [of a f st3 st4]
  by auto

end
